(* ===== verification/Mqtt_Prelude.thy ===== *)
theory Mqtt_Prelude
  imports Main "HOL-Library.Word" "HOL-Library.AList" "HOL-Library.Multiset"
begin

text \<open>
  Shared vocabulary of the development: machine integers, the outcome type that stands for
  Rust's \<^verbatim>\<open>Result\<close> (with panics and not-yet-ready futures as values), checked indexing and
  slicing, Rust strings as their UTF-8 bytes, the \<^verbatim>\<open>DashMap\<close> interface, and invariants of step
  relations.
  The collections \<open>outcome_simps\<close>, \<open>byte_simps\<close> and \<open>inv_intros\<close> are filled here and by the
  component theories and carry their proofs.
\<close>

unbundle bit_operations_syntax

named_theorems outcome_simps "evaluation and inversion of the outcome monad"
named_theorems byte_simps "byte-level encodings and their inverses"
named_theorems inv_intros "preservation of component invariants"

section \<open>Machine integers\<close>

text \<open>
  \<^verbatim>\<open>u8\<close>, \<^verbatim>\<open>u16\<close> and \<^verbatim>\<open>u64\<close> are words of their width. \<^verbatim>\<open>usize\<close> is used for buffer lengths and
  positions only and is a natural number; the bounds lemmas of the codec show that the values the
  code computes in it stay far below any machine's limit.
\<close>

type_synonym u8 = "8 word"
type_synonym u16 = "16 word"
type_synonym u64 = "64 word"
type_synonym usize = nat

definition u16_to_be_bytes :: "u16 \<Rightarrow> u8 list" where
  "u16_to_be_bytes w = [ucast (drop_bit 8 w), ucast w]"

definition u16_from_be_bytes :: "u8 \<Rightarrow> u8 \<Rightarrow> u16" where
  "u16_from_be_bytes a b = push_bit 8 (ucast a) OR ucast b"

text \<open>\<open>n as u16\<close>: the cast keeps the low sixteen bits.\<close>

definition as_u16 :: "usize \<Rightarrow> u16" where
  "as_u16 n = word_of_nat n"

section \<open>Outcomes: the result monad\<close>

text \<open>
  \<open>Ok\<close> and \<open>Err\<close> are those of \<^verbatim>\<open>Result\<close>. \<open>Panic\<close> is a Rust panic (an index or slice out of
  range, an \<^verbatim>\<open>expect\<close> on \<^verbatim>\<open>None\<close>). \<open>Pending\<close> is a future that does not complete on the input
  that has arrived so far.
\<close>

datatype ('e, 'a) outcome = Ok 'a | Err 'e | Panic | Pending

text \<open>The \<^verbatim>\<open>?\<close> operator.\<close>

fun obind :: "('e, 'a) outcome \<Rightarrow> ('a \<Rightarrow> ('e, 'b) outcome) \<Rightarrow> ('e, 'b) outcome" where
  "obind (Ok x) f = f x"
| "obind (Err e) f = Err e"
| "obind Panic f = Panic"
| "obind Pending f = Pending"

fun map_err :: "('e \<Rightarrow> 'f) \<Rightarrow> ('e, 'a) outcome \<Rightarrow> ('f, 'a) outcome" where
  "map_err g (Ok x) = Ok x"
| "map_err g (Err e) = Err (g e)"
| "map_err g Panic = Panic"
| "map_err g Pending = Pending"

text \<open>\<^verbatim>\<open>Option::ok_or\<close>.\<close>

fun ok_or :: "'a option \<Rightarrow> 'e \<Rightarrow> ('e, 'a) outcome" where
  "ok_or (Some x) e = Ok x"
| "ok_or None e = Err e"

definition returns :: "('e, 'a) outcome \<Rightarrow> bool" where
  "returns m \<longleftrightarrow> m \<noteq> Panic \<and> m \<noteq> Pending"

text \<open>Checked indexing \<^verbatim>\<open>xs[i]\<close> and slicing \<^verbatim>\<open>xs[a..b]\<close>: both panic out of range.\<close>

definition index_at :: "'a list \<Rightarrow> usize \<Rightarrow> ('e, 'a) outcome" where
  "index_at xs i = (if i < length xs then Ok (xs ! i) else Panic)"

definition slice_of :: "'a list \<Rightarrow> usize \<Rightarrow> usize \<Rightarrow> ('e, 'a list) outcome" where
  "slice_of xs a b = (if a \<le> b \<and> b \<le> length xs then Ok (take (b - a) (drop a xs)) else Panic)"

section \<open>Strings\<close>

text \<open>
  A Rust \<^verbatim>\<open>str\<close> is a UTF-8 byte sequence. It is modelled by the list of its bytes read as HOL
  characters (HOL's \<^typ>\<open>char\<close> is one byte), so \<^verbatim>\<open>len()\<close> is \<^const>\<open>length\<close> and searching for an ASCII
  character is searching for its byte. The type's guarantee is \<open>is_str\<close>.
\<close>

type_synonym rstr = string

definition byte_of_char :: "char \<Rightarrow> u8" where
  "byte_of_char c = word_of_nat (of_char c)"

definition char_of_byte :: "u8 \<Rightarrow> char" where
  "char_of_byte b = char_of (unat b)"

definition as_bytes :: "rstr \<Rightarrow> u8 list" where
  "as_bytes s = map byte_of_char s"

definition is_cont :: "u8 \<Rightarrow> bool" where
  "is_cont b \<longleftrightarrow> 0x80 \<le> b \<and> b \<le> 0xBF"

text \<open>
  Well-formed UTF-8 (Unicode table 3-7), as \<^verbatim>\<open>std::str::from_utf8\<close> checks it: the first byte gives
  the number of continuation bytes, and narrows the range of the first of them for the leading
  bytes that would otherwise admit overlong forms, surrogates or values past U+10FFFF.
\<close>

definition utf8_width :: "u8 \<Rightarrow> nat option" where
  "utf8_width b =
     (if b < 0x80 then Some 0
      else if 0xC2 \<le> b \<and> b \<le> 0xDF then Some 1
      else if 0xE0 \<le> b \<and> b \<le> 0xEF then Some 2
      else if 0xF0 \<le> b \<and> b \<le> 0xF4 then Some 3
      else None)"

definition utf8_tail_ok :: "u8 \<Rightarrow> u8 list \<Rightarrow> bool" where
  "utf8_tail_ok b0 t \<longleftrightarrow> list_all is_cont t \<and>
     (b0 = 0xE0 \<longrightarrow> 0xA0 \<le> hd t) \<and> (b0 = 0xED \<longrightarrow> hd t \<le> 0x9F) \<and>
     (b0 = 0xF0 \<longrightarrow> 0x90 \<le> hd t) \<and> (b0 = 0xF4 \<longrightarrow> hd t \<le> 0x8F)"

fun utf8_valid :: "u8 list \<Rightarrow> bool" where
  "utf8_valid [] = True"
| "utf8_valid (b0 # bs) =
     (case utf8_width b0 of
        None \<Rightarrow> False
      | Some n \<Rightarrow> n \<le> length bs \<and> utf8_tail_ok b0 (take n bs) \<and> utf8_valid (drop n bs))"

definition is_str :: "rstr \<Rightarrow> bool" where
  "is_str s \<longleftrightarrow> utf8_valid (as_bytes s)"

text \<open>\<^verbatim>\<open>std::str::from_utf8\<close>; \<open>None\<close> is its error.\<close>

definition from_utf8 :: "u8 list \<Rightarrow> rstr option" where
  "from_utf8 bs = (if utf8_valid bs then Some (map char_of_byte bs) else None)"

text \<open>\<^verbatim>\<open>str::split(c)\<close> and \<^verbatim>\<open>[String]::join(sep)\<close>.\<close>

fun split_on :: "'a \<Rightarrow> 'a list \<Rightarrow> 'a list list" where
  "split_on c [] = [[]]"
| "split_on c (x # xs) =
     (if x = c then [] # split_on c xs
      else (case split_on c xs of [] \<Rightarrow> [[x]] | s # ss \<Rightarrow> (x # s) # ss))"

fun join_with :: "'a list \<Rightarrow> 'a list list \<Rightarrow> 'a list" where
  "join_with sep [] = []"
| "join_with sep [x] = x"
| "join_with sep (x # y # r) = x @ sep @ join_with sep (y # r)"

text \<open>\<^verbatim>\<open>Display\<close> of an unsigned integer: its decimal digits.\<close>

fun show_nat :: "nat \<Rightarrow> string" where
  "show_nat n =
     (if n < 10 then [char_of (48 + n)] else show_nat (n div 10) @ [char_of (48 + n mod 10)])"

declare show_nat.simps [simp del]

section \<open>DashMap\<close>

text \<open>
  The broker's tables are \<^verbatim>\<open>DashMap\<close>s, whose iteration visits every entry once in an order that is
  not specified. A table is an association list with distinct keys; an operation that iterates takes
  the order as an argument, a function that permutes the entries (see \<open>permutes_entries\<close>).
\<close>

type_synonym ('k, 'v) dashmap = "('k \<times> 'v) list"

definition dm_get :: "('k, 'v) dashmap \<Rightarrow> 'k \<Rightarrow> 'v option" where
  "dm_get m k = map_of m k"

definition dm_insert :: "'k \<Rightarrow> 'v \<Rightarrow> ('k, 'v) dashmap \<Rightarrow> ('k, 'v) dashmap" where
  "dm_insert k v m = AList.update k v m"

definition dm_remove :: "'k \<Rightarrow> ('k, 'v) dashmap \<Rightarrow> ('k, 'v) dashmap" where
  "dm_remove k m = AList.delete k m"

definition dm_wf :: "('k, 'v) dashmap \<Rightarrow> bool" where
  "dm_wf m \<longleftrightarrow> distinct (map fst m)"

definition permutes_entries :: "('e list \<Rightarrow> 'e list) \<Rightarrow> bool" where
  "permutes_entries ord \<longleftrightarrow> (\<forall>xs. mset (ord xs) = mset xs)"

lemma filter_fst_alist:
  "distinct (map fst xs) \<Longrightarrow>
   filter (\<lambda>e. fst e = k) xs = (case map_of xs k of None \<Rightarrow> [] | Some v \<Rightarrow> [(k, v)])"
proof (induction xs)
  case Nil
  then show ?case by simp
next
  case (Cons x xs)
  show ?case
  proof (cases "fst x = k")
    case True
    with Cons.prems have "k \<notin> fst ` set xs" by simp
    then have "filter (\<lambda>e. fst e = k) xs = []"
      unfolding filter_empty_conv by (metis image_eqI)
    with True show ?thesis by (cases x) simp
  next
    case False
    with Cons show ?thesis by (cases x) simp
  qed
qed

locale dash_map =
  fixes empty :: "'m"
    and get :: "'m \<Rightarrow> 'k \<Rightarrow> 'v option"
    and insert :: "'k \<Rightarrow> 'v \<Rightarrow> 'm \<Rightarrow> 'm"
    and remove :: "'k \<Rightarrow> 'm \<Rightarrow> 'm"
    and entries :: "'m \<Rightarrow> ('k \<times> 'v) list"
    and invar :: "'m \<Rightarrow> bool"
  assumes get_empty: "get empty k = None"
    and get_insert: "invar m \<Longrightarrow> get (insert k v m) = (get m)(k \<mapsto> v)"
    and get_remove: "invar m \<Longrightarrow> get (remove k m) = (get m)(k := None)"
    and entries_get: "invar m \<Longrightarrow> (k, v) \<in> set (entries m) \<longleftrightarrow> get m k = Some v"
    and entries_distinct: "invar m \<Longrightarrow> distinct (map fst (entries m))"
    and invar_empty: "invar empty"
    and invar_insert: "invar m \<Longrightarrow> invar (insert k v m)"
    and invar_remove: "invar m \<Longrightarrow> invar (remove k m)"
begin

lemma get_insert_same: "invar m \<Longrightarrow> get (insert k v m) k = Some v"
  by (simp add: get_insert)

lemma get_insert_other: "invar m \<Longrightarrow> k' \<noteq> k \<Longrightarrow> get (insert k v m) k' = get m k'"
  by (simp add: get_insert)

lemma get_remove_same: "invar m \<Longrightarrow> get (remove k m) k = None"
  by (simp add: get_remove)

lemma get_remove_other: "invar m \<Longrightarrow> k' \<noteq> k \<Longrightarrow> get (remove k m) k' = get m k'"
  by (simp add: get_remove)

lemma reinsert: "invar m \<Longrightarrow> get (insert k v (remove k m)) = (get m)(k \<mapsto> v)"
  by (simp add: get_insert get_remove invar_remove)

lemma count_entries:
  assumes "invar m"
  shows "count (mset (entries m)) (k, v) = (if get m k = Some v then 1 else 0)"
proof -
  have "distinct (entries m)"
    using entries_distinct [OF assms] by (simp add: distinct_map)
  then show ?thesis
    using entries_get [OF assms] by (auto simp: distinct_count_atmost_1)
qed

lemma filter_entries:
  assumes "invar m"
  shows "filter (\<lambda>e. fst e = k) (entries m) =
    (case get m k of None \<Rightarrow> [] | Some v \<Rightarrow> [(k, v)])"
proof -
  have "map_of (entries m) k = get m k"
    using entries_get [OF assms] entries_distinct [OF assms]
    by (cases "get m k") (auto simp: map_of_eq_None_iff map_of_eq_Some_iff)
  then show ?thesis
    using entries_distinct [OF assms] by (simp add: filter_fst_alist)
qed

end

interpretation dm: dash_map "[]" dm_get dm_insert dm_remove "\<lambda>m. m" dm_wf
  by unfold_locales
    (simp_all add: dm_get_def [abs_def] dm_insert_def dm_remove_def dm_wf_def update_conv' delete_conv'
      map_of_eq_Some_iff distinct_update distinct_delete)

lemmas dm_simps [simp] = dm.get_empty dm.invar_empty dm.invar_insert dm.invar_remove

text \<open>On association lists the lookup laws need no invariant.\<close>

lemma dm_get_insert [simp]: "dm_get (dm_insert k v m) = (dm_get m)(k \<mapsto> v)"
  by (simp add: dm_get_def [abs_def] dm_insert_def update_conv')

lemma dm_get_remove [simp]: "dm_get (dm_remove k m) = (dm_get m)(k := None)"
  by (simp add: dm_get_def [abs_def] dm_remove_def delete_conv')

lemma dm_get_SomeD: "dm_get m k = Some v \<Longrightarrow> (k, v) \<in> set m"
  by (simp add: dm_get_def map_of_SomeD)

lemma dm_get_Some_iff: "dm_wf m \<Longrightarrow> dm_get m k = Some v \<longleftrightarrow> (k, v) \<in> set m"
  by (simp add: dm.entries_get)

lemma dm_get_None_iff: "dm_get m k = None \<longleftrightarrow> k \<notin> fst ` set m"
  by (simp add: dm_get_def map_of_eq_None_iff)

lemma dm_set_eqI: "dm_wf m \<Longrightarrow> dm_wf m' \<Longrightarrow> dm_get m = dm_get m' \<Longrightarrow> set m = set m'"
  using dm_get_Some_iff [of m] dm_get_Some_iff [of m'] by auto

lemma set_dm_remove: "set (dm_remove k m) = {e \<in> set m. fst e \<noteq> k}"
  by (auto simp: dm_remove_def AList.delete_eq)

lemma set_dm_remove_get:
  assumes "dm_wf m" and "dm_get m k = Some v"
  shows "set (dm_remove k m) = set m - {(k, v)}"
proof (rule set_eqI)
  fix e
  show "e \<in> set (dm_remove k m) \<longleftrightarrow> e \<in> set m - {(k, v)}"
    using dm_get_Some_iff [OF assms(1), of k "snd e"] assms(2)
    by (cases e) (auto simp: set_dm_remove)
qed

lemma set_dm_insert: "dm_wf m \<Longrightarrow> set (dm_insert k v m) = insert (k, v) {e \<in> set m. fst e \<noteq> k}"
proof -
  assume "dm_wf m"
  then have "(a, b) \<in> set (dm_insert k v m) \<longleftrightarrow> (a, b) = (k, v) \<or> ((a, b) \<in> set m \<and> a \<noteq> k)" for a b
    using dm_get_Some_iff [of "dm_insert k v m" a b] dm_get_Some_iff [of m a b]
    by (auto split: if_splits)
  then show ?thesis by auto
qed

lemma dm_remove_keys: "fst ` set (dm_remove k m) = fst ` set m - {k}"
  using arg_cong [OF delete_keys [of k m], of set] by (simp add: dm_remove_def)

lemma permutes_entriesD:
  assumes "permutes_entries ord"
  shows "mset (ord xs) = mset xs" and "set (ord xs) = set xs" and "length (ord xs) = length xs"
proof -
  show m: "mset (ord xs) = mset xs" using assms by (simp add: permutes_entries_def)
  show "set (ord xs) = set xs" using m by (rule mset_eq_setD)
  show "length (ord xs) = length xs" using m by (rule mset_eq_length)
qed

lemma permutes_entries_id: "permutes_entries (\<lambda>xs. xs)"
  by (simp add: permutes_entries_def)

lemma permutes_entries_rev: "permutes_entries rev"
  by (simp add: permutes_entries_def)

section \<open>Lemmas on the shared vocabulary\<close>

subsection \<open>Big-endian pairs\<close>

lemma from_be_to_be [simp, byte_simps]:
  "u16_from_be_bytes (ucast (drop_bit 8 w)) (ucast w) = w"
  unfolding u16_from_be_bytes_def by (rule bit_word_eqI) (auto simp: bit_simps)

lemma to_be_from_be [simp, byte_simps]: "u16_to_be_bytes (u16_from_be_bytes a b) = [a, b]"
proof -
  have "\<not> bit b (8 + n)" for n by (simp add: bit_word.rep_eq)
  then have "(ucast (drop_bit 8 (u16_from_be_bytes a b)) :: u8) = a"
    unfolding u16_from_be_bytes_def by (intro bit_word_eqI) (auto simp: bit_simps)
  moreover have "(ucast (u16_from_be_bytes a b) :: u8) = b"
    unfolding u16_from_be_bytes_def by (intro bit_word_eqI) (auto simp: bit_simps)
  ultimately show ?thesis by (simp add: u16_to_be_bytes_def)
qed

lemma length_to_be [simp]: "length (u16_to_be_bytes w) = 2"
  by (simp add: u16_to_be_bytes_def)

lemma to_be_and_mask: "[ucast (drop_bit 8 w), ucast (w AND 0xFF)] = u16_to_be_bytes w"
proof -
  have "(ucast (w AND 0xFF) :: u8) = ucast w"
    by (simp flip: mask_eq_exp_minus_1 [where n = 8 and 'a = u16, simplified] take_bit_eq_mask)
      (rule bit_word_eqI, auto simp: bit_simps)
  then show ?thesis by (simp add: u16_to_be_bytes_def)
qed

lemma unat_as_u16 [simp]: "n < 65536 \<Longrightarrow> unat (as_u16 n) = n"
  by (simp add: as_u16_def unsigned_of_nat take_bit_nat_eq_self)

lemma unat_as_u16_mod: "unat (as_u16 n) = n mod 65536"
  by (simp add: as_u16_def unsigned_of_nat take_bit_eq_mod)

lemma unat_u16_bound [simp]: "unat (w :: u16) < 65536"
  by (rule order_less_le_trans [OF unsigned_less]) simp

subsection \<open>The outcome monad\<close>

declare obind.simps [outcome_simps] map_err.simps [outcome_simps] ok_or.simps [outcome_simps]

lemma obind_cong [fundef_cong]:
  "m = m' \<Longrightarrow> (\<And>x. m' = Ok x \<Longrightarrow> f x = g x) \<Longrightarrow> obind m f = obind m' g"
  by (cases m') auto

lemma obind_Ok_iff [outcome_simps]: "obind m f = Ok y \<longleftrightarrow> (\<exists>x. m = Ok x \<and> f x = Ok y)"
  by (cases m) auto

lemma ok_or_Ok_iff [outcome_simps]: "ok_or x e = Ok y \<longleftrightarrow> x = Some y"
  by (cases x) auto

lemma map_err_Ok_iff [outcome_simps]: "map_err g m = Ok y \<longleftrightarrow> m = Ok y"
  by (cases m) auto

lemma returns_simps [simp]:
  "returns (Ok x)" "returns (Err e)" "\<not> returns Panic" "\<not> returns Pending"
  by (simp_all add: returns_def)

lemma returns_obind:
  assumes "returns m" and "\<And>x. m = Ok x \<Longrightarrow> returns (f x)"
  shows "returns (obind m f)"
  using assms by (cases m) auto

lemma returns_ok_or [simp]: "returns (ok_or x e)"
  by (cases x) auto

lemma returns_map_err [simp]: "returns (map_err g m) = returns m"
  by (cases m) auto

lemma index_at_Ok [simp]: "i < length xs \<Longrightarrow> index_at xs i = Ok (xs ! i)"
  by (simp add: index_at_def)

lemma returns_index_at [simp]: "returns (index_at xs i) \<longleftrightarrow> i < length xs"
  by (simp add: index_at_def)

lemma slice_of_Ok [simp]:
  "a \<le> b \<Longrightarrow> b \<le> length xs \<Longrightarrow> slice_of xs a b = Ok (take (b - a) (drop a xs))"
  by (simp add: slice_of_def)

lemma returns_slice_of [simp]: "returns (slice_of xs a b) \<longleftrightarrow> a \<le> b \<and> b \<le> length xs"
  by (simp add: slice_of_def)

subsection \<open>Strings\<close>

lemma char_of_byte_of_char [simp]: "char_of_byte (byte_of_char c) = c"
proof -
  have "unat (word_of_nat (of_char c) :: u8) = of_char c"
    by (simp add: unsigned_of_nat take_bit_nat_eq_self)
  then show ?thesis by (simp add: char_of_byte_def byte_of_char_def)
qed

lemma byte_of_char_of_byte [simp]: "byte_of_char (char_of_byte b) = b"
proof -
  have "unat b < 256" by (rule order_less_le_trans [OF unsigned_less]) simp
  then show ?thesis by (simp add: char_of_byte_def byte_of_char_def)
qed

lemma as_bytes_simps [simp, byte_simps]:
  "as_bytes [] = []" "as_bytes (c # s) = byte_of_char c # as_bytes s"
  "as_bytes (s @ t) = as_bytes s @ as_bytes t" "length (as_bytes s) = length s"
  by (simp_all add: as_bytes_def)

lemma from_utf8_as_bytes [simp, byte_simps]: "is_str s \<Longrightarrow> from_utf8 (as_bytes s) = Some s"
  by (simp add: from_utf8_def is_str_def as_bytes_def comp_def)

lemma from_utf8_SomeD: "from_utf8 bs = Some s \<Longrightarrow> is_str s \<and> as_bytes s = bs"
  by (auto simp: from_utf8_def is_str_def as_bytes_def comp_def split: if_splits)

lemma utf8_valid_append: "utf8_valid xs \<Longrightarrow> utf8_valid (xs @ ys) = utf8_valid ys"
  by (induction xs rule: utf8_valid.induct) (auto split: option.splits)

lemma ascii_not_cont: "b < 0x80 \<Longrightarrow> \<not> is_cont b"
  by (simp add: is_cont_def not_le)

lemma utf8_valid_split_ascii:
  "utf8_valid (xs @ b # ys) \<Longrightarrow> b < 0x80 \<Longrightarrow> utf8_valid xs \<and> utf8_valid ys"
proof (induction xs rule: utf8_valid.induct)
  case 1
  then show ?case by (simp add: utf8_width_def)
next
  case (2 b0 bs)
  from "2.prems" obtain n where n: "utf8_width b0 = Some n"
    and tail: "utf8_tail_ok b0 (take n (bs @ b # ys))"
    and rest: "utf8_valid (drop n (bs @ b # ys))"
    by (auto split: option.splits)
  have le: "n \<le> length bs"
  proof (rule ccontr)
    assume "\<not> n \<le> length bs"
    then obtain k where "n - length bs = Suc k" by (metis Suc_diff_Suc not_le)
    with tail \<open>\<not> n \<le> length bs\<close> have "is_cont b" by (simp add: utf8_tail_ok_def)
    with "2.prems"(2) show False by (simp add: ascii_not_cont)
  qed
  with rest have "utf8_valid (drop n bs @ b # ys)" by simp
  with "2.IH" [OF n] "2.prems"(2) have "utf8_valid (drop n bs) \<and> utf8_valid ys" by simp
  with n le tail show ?case by simp
qed

lemma is_str_Nil [simp]: "is_str []"
  by (simp add: is_str_def)

lemma split_on_not_Nil [simp]: "split_on c xs \<noteq> []"
  by (induction xs) (auto split: list.splits)

lemma join_split: "join_with [c] (split_on c xs) = xs"
proof (induction xs)
  case Nil
  then show ?case by simp
next
  case (Cons x xs)
  obtain s ss where "split_on c xs = s # ss"
    using split_on_not_Nil by (meson list.exhaust)
  with Cons show ?case by (cases ss) auto
qed

lemma split_on_no_sep: "s \<in> set (split_on c xs) \<Longrightarrow> c \<notin> set s"
  by (induction xs arbitrary: s) (auto split: list.splits if_splits)

lemma split_on_no_occurrence: "c \<notin> set xs \<Longrightarrow> split_on c xs = [xs]"
  by (induction xs) auto

lemma split_on_append_sep: "c \<notin> set s \<Longrightarrow> split_on c (s @ c # t) = s # split_on c t"
  by (induction s) auto

lemma split_join:
  "xss \<noteq> [] \<Longrightarrow> \<forall>s \<in> set xss. c \<notin> set s \<Longrightarrow> split_on c (join_with [c] xss) = xss"
  by (induction "[c]" xss rule: join_with.induct)
    (auto simp: split_on_append_sep split_on_no_occurrence)

lemma set_split_on_subset: "s \<in> set (split_on c xs) \<Longrightarrow> set s \<subseteq> set xs"
proof (induction xs arbitrary: s)
  case Nil
  then show ?case by simp
next
  case (Cons x xs)
  obtain t ts where t: "split_on c xs = t # ts"
    using split_on_not_Nil by (meson list.exhaust)
  with Cons.IH have "set t \<subseteq> set xs" and "\<forall>u \<in> set ts. set u \<subseteq> set xs" by auto
  with Cons.prems t show ?case by (auto split: if_splits)
qed

lemma is_str_split_on:
  assumes "is_str xs" and "byte_of_char c < 0x80" and "s \<in> set (split_on c xs)"
  shows "is_str s"
  using assms(1,3)
proof (induction "split_on c xs" arbitrary: xs)
  case Nil
  then show ?case by simp
next
  case (Cons t ts)
  show ?case
  proof (cases "c \<in> set xs")
    case False
    with Cons show ?thesis by (simp add: split_on_no_occurrence)
  next
    case True
    then obtain ys zs where xs: "xs = ys @ c # zs" and "c \<notin> set ys"
      by (meson split_list_first)
    with Cons.hyps(2) have ts: "t = ys" "ts = split_on c zs"
      by (simp_all add: split_on_append_sep)
    from Cons.prems(1) xs have "is_str ys \<and> is_str zs"
      unfolding is_str_def using assms(2) by (intro utf8_valid_split_ascii) auto
    with Cons ts show ?thesis by (metis set_ConsD)
  qed
qed

text \<open>The decimal digits determine the number: read back from the left, they give it.\<close>

definition read_nat :: "string \<Rightarrow> nat" where
  "read_nat ds = foldl (\<lambda>n d. 10 * n + (of_char d - 48)) 0 ds"

lemma read_show_nat [simp]: "read_nat (show_nat n) = n"
proof (induction n rule: show_nat.induct)
  case (1 n)
  show ?case
  proof (cases "n < 10")
    case True
    then show ?thesis by (simp add: show_nat.simps [of n] read_nat_def)
  next
    case False
    with 1 show ?thesis by (simp add: show_nat.simps [of n] read_nat_def)
  qed
qed

lemma show_nat_inject [simp]: "show_nat m = show_nat n \<longleftrightarrow> m = n"
  by (metis read_show_nat)

section \<open>Invariants of step relations\<close>

text \<open>
  The interface between a step relation and the properties of its runs: what every step keeps holds
  along every run.
\<close>

locale step_invariant =
  fixes step :: "'s \<Rightarrow> 's \<Rightarrow> bool" and inv :: "'s \<Rightarrow> bool"
  assumes step_keeps: "step s s' \<Longrightarrow> inv s \<Longrightarrow> inv s'"
begin

lemma run_keeps: "step\<^sup>*\<^sup>* s s' \<Longrightarrow> inv s \<Longrightarrow> inv s'"
  by (induction rule: rtranclp_induct) (auto dest: step_keeps)

lemma run_snoc_keeps: "step\<^sup>*\<^sup>* s s' \<Longrightarrow> step s' s'' \<Longrightarrow> inv s \<Longrightarrow> inv s''"
  using run_keeps step_keeps by blast

end

section \<open>Labelled runs and simulation\<close>

text \<open>
  A run of a labelled step relation, with the labels in the order of the steps. A relation between the
  states of two systems that every step of the first can be answered in, by a step of the second with
  the same label, carries every run of the first over to the second.
\<close>

inductive labelled_run :: "('s \<Rightarrow> 'l \<Rightarrow> 's \<Rightarrow> bool) \<Rightarrow> 's \<Rightarrow> 'l list \<Rightarrow> 's \<Rightarrow> bool"
  for step :: "'s \<Rightarrow> 'l \<Rightarrow> 's \<Rightarrow> bool" where
  lrun_nil: "labelled_run step s [] s"
| lrun_snoc: "labelled_run step s ls s' \<Longrightarrow> step s' l s'' \<Longrightarrow> labelled_run step s (ls @ [l]) s''"

locale simulation =
  fixes cstep :: "'c \<Rightarrow> 'l \<Rightarrow> 'c \<Rightarrow> bool" and astep :: "'a \<Rightarrow> 'l \<Rightarrow> 'a \<Rightarrow> bool"
    and related :: "'c \<Rightarrow> 'a \<Rightarrow> bool"
  assumes answers: "cstep c l c' \<Longrightarrow> related c a \<Longrightarrow> \<exists>a'. astep a l a' \<and> related c' a'"
begin

lemma run_answers: "labelled_run cstep c ls c' \<Longrightarrow> related c a \<Longrightarrow> \<exists>a'. labelled_run astep a ls a' \<and> related c' a'"
proof (induction arbitrary: a rule: labelled_run.induct)
  case (lrun_snoc c ls c' l c'')
  then show ?case using answers by (meson labelled_run.lrun_snoc)
qed (blast intro: lrun_nil)

end

text \<open>An invariant that may speak of the labels so far.\<close>

locale history_invariant =
  fixes step :: "'s \<Rightarrow> 'l \<Rightarrow> 's \<Rightarrow> bool" and inv :: "'l list \<Rightarrow> 's \<Rightarrow> bool"
  assumes history_keeps: "step s l s' \<Longrightarrow> inv ls s \<Longrightarrow> inv (ls @ [l]) s'"
begin

lemma run_history: "labelled_run step s ls s' \<Longrightarrow> inv [] s \<Longrightarrow> inv ls s'"
  by (induction rule: labelled_run.induct) (auto dest: history_keeps)

end

end
