(* ===== verification/Mqtt_Packet.thy ===== *)
theory Mqtt_Packet
  imports Mqtt_Prelude
begin

text \<open>
  The data of the protocol: \<^verbatim>\<open>src/src/packet.rs\<close> (wire packets, packet types, flag masks, return
  codes), \<^verbatim>\<open>src/src/request.rs\<close> (quality of service, requests, responses, wills, filters) and
  \<^verbatim>\<open>src/src/error.rs\<close> (the error hierarchy). Record fields carry a prefix where the source reuses
  a field name in several structs.
\<close>

section \<open>request.rs: shared data types\<close>

datatype qos = AtMostOnce | AtLeastOnce | ExactlyOnce

fun qos_as_u8 :: "qos \<Rightarrow> u8" where
  "qos_as_u8 AtMostOnce = 0"
| "qos_as_u8 AtLeastOnce = 1"
| "qos_as_u8 ExactlyOnce = 2"

definition qos_from_u8 :: "u8 \<Rightarrow> qos option" where
  "qos_from_u8 v =
     (if v = 0 then Some AtMostOnce
      else if v = 1 then Some AtLeastOnce
      else if v = 2 then Some ExactlyOnce
      else None)"

text \<open>The derived \<^verbatim>\<open>Ord\<close>: the order of the discriminants.\<close>

instantiation qos :: linorder
begin

definition less_eq_qos :: "qos \<Rightarrow> qos \<Rightarrow> bool" where
  "less_eq_qos a b \<longleftrightarrow> qos_as_u8 a \<le> qos_as_u8 b"

definition less_qos :: "qos \<Rightarrow> qos \<Rightarrow> bool" where
  "less_qos a b \<longleftrightarrow> qos_as_u8 a < qos_as_u8 b"

instance
proof
  fix a b c :: qos
  show "(a < b) = (a \<le> b \<and> \<not> b \<le> a)" by (auto simp: less_eq_qos_def less_qos_def)
  show "a \<le> a" by (simp add: less_eq_qos_def)
  show "a \<le> b \<Longrightarrow> b \<le> c \<Longrightarrow> a \<le> c" by (auto simp: less_eq_qos_def)
  show "a \<le> b \<Longrightarrow> b \<le> a \<Longrightarrow> a = b" by (cases a; cases b) (simp_all add: less_eq_qos_def word_le_nat_alt)
  show "a \<le> b \<or> b \<le> a" by (auto simp: less_eq_qos_def)
qed

end

type_synonym packet_id = u16

record publish_request =
  preq_topic :: rstr
  preq_payload :: "u8 list"
  preq_qos :: qos
  preq_retain :: bool

record topic_filter =
  tf_filter :: rstr
  tf_qos :: qos

record incoming_publish =
  inc_topic :: rstr
  inc_payload :: "u8 list"
  inc_qos :: qos
  inc_retain :: bool
  inc_dup :: bool
  inc_packet_id :: "packet_id option"

datatype publish_ack = Sent | Acknowledged packet_id | Completed packet_id

datatype suback_code = Granted qos | Failure

fun suback_as_u8 :: "suback_code \<Rightarrow> u8" where
  "suback_as_u8 (Granted q) = qos_as_u8 q"
| "suback_as_u8 Failure = 0x80"

definition suback_from_u8 :: "u8 \<Rightarrow> suback_code option" where
  "suback_from_u8 v =
     (if v = 0 then Some (Granted AtMostOnce)
      else if v = 1 then Some (Granted AtLeastOnce)
      else if v = 2 then Some (Granted ExactlyOnce)
      else if v = 0x80 then Some Failure
      else None)"

datatype mqtt_request =
    ReqPublish publish_request
  | ReqSubscribe "topic_filter list"
  | ReqUnsubscribe "rstr list"

datatype mqtt_response =
    Published publish_ack
  | Subscribed "suback_code list"
  | Unsubscribed

record credentials =
  cred_username :: rstr
  cred_password :: "u8 list"

record will_message =
  will_topic :: rstr
  will_payload :: "u8 list"
  will_qos :: qos
  will_retain :: bool

definition topic_filter_new :: "rstr \<Rightarrow> qos \<Rightarrow> topic_filter" where
  "topic_filter_new flt q = \<lparr>tf_filter = flt, tf_qos = q\<rparr>"

definition credentials_new :: "rstr \<Rightarrow> u8 list \<Rightarrow> credentials" where
  "credentials_new username password = \<lparr>cred_username = username, cred_password = password\<rparr>"

definition will_message_new :: "rstr \<Rightarrow> u8 list \<Rightarrow> qos \<Rightarrow> bool \<Rightarrow> will_message" where
  "will_message_new topic payload q retain =
     \<lparr>will_topic = topic, will_payload = payload, will_qos = q, will_retain = retain\<rparr>"

definition publish_request_default :: publish_request where
  "publish_request_default =
     \<lparr>preq_topic = '''', preq_payload = [], preq_qos = AtMostOnce, preq_retain = False\<rparr>"

section \<open>packet.rs: wire packets\<close>

definition MQTT_SPEC_MAX_PACKET_SIZE :: usize where
  "MQTT_SPEC_MAX_PACKET_SIZE = 268435455"

record publish_packet =
  pub_topic :: rstr
  pub_payload :: "u8 list"
  pub_dup :: bool
  pub_qos :: qos
  pub_retain :: bool
  pub_packet_id :: "packet_id option"

definition publish_with_id :: "publish_packet \<Rightarrow> packet_id \<Rightarrow> publish_packet" where
  "publish_with_id p i = p\<lparr>pub_packet_id := Some i\<rparr>"

text \<open>
  \<^verbatim>\<open>WillPacket\<close> has the fields of \<^verbatim>\<open>WillMessage\<close>, in the same order; the handlers copy one into the
  other field by field.
\<close>

record will_packet =
  wp_topic :: rstr
  wp_payload :: "u8 list"
  wp_qos :: qos
  wp_retain :: bool

record connect_packet =
  con_client_id :: rstr
  con_clean_session :: bool
  con_keep_alive :: u16
  con_username :: "rstr option"
  con_password :: "u8 list option"
  con_will :: "will_packet option"

datatype connack_return_code =
    Accepted
  | UnacceptableProtocolVersion
  | IdentifierRejected
  | ServerUnavailable
  | BadUsernameOrPassword
  | NotAuthorized

fun connack_as_u8 :: "connack_return_code \<Rightarrow> u8" where
  "connack_as_u8 Accepted = 0"
| "connack_as_u8 UnacceptableProtocolVersion = 1"
| "connack_as_u8 IdentifierRejected = 2"
| "connack_as_u8 ServerUnavailable = 3"
| "connack_as_u8 BadUsernameOrPassword = 4"
| "connack_as_u8 NotAuthorized = 5"

definition connack_try_from :: "u8 \<Rightarrow> connack_return_code option" where
  "connack_try_from v =
     (if v = 0 then Some Accepted
      else if v = 1 then Some UnacceptableProtocolVersion
      else if v = 2 then Some IdentifierRejected
      else if v = 3 then Some ServerUnavailable
      else if v = 4 then Some BadUsernameOrPassword
      else if v = 5 then Some NotAuthorized
      else None)"

record connack_packet =
  ack_session_present :: bool
  ack_return_code :: connack_return_code

record topic_subscription =
  ts_topic :: rstr
  ts_qos :: qos

record subscribe_packet =
  sub_packet_id :: packet_id
  sub_subscriptions :: "topic_subscription list"

record suback_packet =
  suback_packet_id :: packet_id
  suback_return_codes :: "suback_code list"

record unsubscribe_packet =
  unsub_packet_id :: packet_id
  unsub_topics :: "rstr list"

datatype packet =
    Connect connect_packet
  | Connack connack_packet
  | Publish publish_packet
  | Puback packet_id
  | Pubrec packet_id
  | Pubrel packet_id
  | Pubcomp packet_id
  | Subscribe subscribe_packet
  | Suback suback_packet
  | Unsubscribe unsubscribe_packet
  | Unsuback packet_id
  | Pingreq
  | Pingresp
  | Disconnect

fun packet_name :: "packet \<Rightarrow> string" where
  "packet_name (Connect _) = ''CONNECT''"
| "packet_name (Connack _) = ''CONNACK''"
| "packet_name (Publish _) = ''PUBLISH''"
| "packet_name (Puback _) = ''PUBACK''"
| "packet_name (Pubrec _) = ''PUBREC''"
| "packet_name (Pubrel _) = ''PUBREL''"
| "packet_name (Pubcomp _) = ''PUBCOMP''"
| "packet_name (Subscribe _) = ''SUBSCRIBE''"
| "packet_name (Suback _) = ''SUBACK''"
| "packet_name (Unsubscribe _) = ''UNSUBSCRIBE''"
| "packet_name (Unsuback _) = ''UNSUBACK''"
| "packet_name Pingreq = ''PINGREQ''"
| "packet_name Pingresp = ''PINGRESP''"
| "packet_name Disconnect = ''DISCONNECT''"

datatype packet_type =
    TConnect | TConnack | TPublish | TPuback | TPubrec | TPubrel | TPubcomp
  | TSubscribe | TSuback | TUnsubscribe | TUnsuback | TPingreq | TPingresp | TDisconnect

fun packet_type_as_u8 :: "packet_type \<Rightarrow> u8" where
  "packet_type_as_u8 TConnect = 1"
| "packet_type_as_u8 TConnack = 2"
| "packet_type_as_u8 TPublish = 3"
| "packet_type_as_u8 TPuback = 4"
| "packet_type_as_u8 TPubrec = 5"
| "packet_type_as_u8 TPubrel = 6"
| "packet_type_as_u8 TPubcomp = 7"
| "packet_type_as_u8 TSubscribe = 8"
| "packet_type_as_u8 TSuback = 9"
| "packet_type_as_u8 TUnsubscribe = 10"
| "packet_type_as_u8 TUnsuback = 11"
| "packet_type_as_u8 TPingreq = 12"
| "packet_type_as_u8 TPingresp = 13"
| "packet_type_as_u8 TDisconnect = 14"

definition packet_type_try_from :: "u8 \<Rightarrow> packet_type option" where
  "packet_type_try_from v =
     (if v = 1 then Some TConnect
      else if v = 2 then Some TConnack
      else if v = 3 then Some TPublish
      else if v = 4 then Some TPuback
      else if v = 5 then Some TPubrec
      else if v = 6 then Some TPubrel
      else if v = 7 then Some TPubcomp
      else if v = 8 then Some TSubscribe
      else if v = 9 then Some TSuback
      else if v = 10 then Some TUnsubscribe
      else if v = 11 then Some TUnsuback
      else if v = 12 then Some TPingreq
      else if v = 13 then Some TPingresp
      else if v = 14 then Some TDisconnect
      else None)"

text \<open>The \<^verbatim>\<open>bitflags!\<close> masks of the fixed header and of the CONNECT flags byte.\<close>

definition FH_Retain :: u8 where "FH_Retain = 0x01"
definition FH_QoS :: u8 where "FH_QoS = 0x06"
definition FH_Dup :: u8 where "FH_Dup = 0x08"

definition CF_Username :: u8 where "CF_Username = 0x80"
definition CF_Password :: u8 where "CF_Password = 0x40"
definition CF_WillRetain :: u8 where "CF_WillRetain = 0x20"
definition CF_WillQoSMask :: u8 where "CF_WillQoSMask = 0x18"
definition CF_WillFlag :: u8 where "CF_WillFlag = 0x04"
definition CF_CleanSession :: u8 where "CF_CleanSession = 0x02"

text \<open>
  \<^verbatim>\<open>FixedHeaderFlags::from_bits\<close> refuses a byte with a bit outside the declared masks;
  \<^verbatim>\<open>contains\<close> holds when every bit of the flag is set. All eight bits of \<^verbatim>\<open>ConnectFlags\<close> are
  declared, so \<^verbatim>\<open>from_bits_truncate\<close> keeps the byte as it is.
\<close>

definition fixed_header_from_bits :: "u8 \<Rightarrow> u8 option" where
  "fixed_header_from_bits b =
     (if b AND NOT (FH_Retain OR FH_QoS OR FH_Dup) = 0 then Some b else None)"

definition flags_contain :: "u8 \<Rightarrow> u8 \<Rightarrow> bool" where
  "flags_contain b f \<longleftrightarrow> b AND f = f"

section \<open>error.rs: the error hierarchy\<close>

datatype timeout_kind = TimeoutConnack | TimeoutConnectReceive | TimeoutAck

datatype violation =
    ExpectedConnack
  | ExpectedConnect
  | ConnectionRefused connack_return_code
  | UnexpectedPacket string string
  | InvalidProtocolName
  | UnsupportedProtocolLevel u8
  | EmptyTopic
  | TopicTooLong
  | WildcardInPublishTopic
  | HashWildcardNotTerminal
  | WildcardMixedWithLiteral
  | SessionAlreadyBound
  | PacketTooLarge usize usize

datatype codec_error =
    UnexpectedEof
  | InvalidPacketType u8
  | MalformedLength
  | InvalidUtf8
  | PayloadTooLong usize usize
  | QosInvalid u8
  | ReservedFlagSet
  | MissingPacketId
  | ZeroPacketId
  | CodecTopicTooLong usize usize
  | BodyTooLong usize usize

text \<open>The I/O errors the code can observe: end of stream on a read, a failed write.\<close>

datatype io_error = IoUnexpectedEof | IoWriteFailed

datatype mqtt_error =
    Io io_error
  | ChannelClosed
  | AckTimeout
  | Timeout timeout_kind
  | Configuration string
  | NotConnected string
  | Protocol violation
  | Codec codec_error
  | Unsupported string

type_synonym 'a result = "(mqtt_error, 'a) outcome"

section \<open>Lemmas\<close>

lemma qos_from_as [simp, byte_simps]: "qos_from_u8 (qos_as_u8 q) = Some q"
  by (cases q) (simp_all add: qos_from_u8_def)

lemma qos_from_u8_SomeD: "qos_from_u8 v = Some q \<Longrightarrow> v = qos_as_u8 q"
  by (auto simp: qos_from_u8_def split: if_splits)

lemma suback_from_as [simp, byte_simps]: "suback_from_u8 (suback_as_u8 c) = Some c"
proof (cases c)
  case (Granted q)
  then show ?thesis by (cases q) (simp_all add: suback_from_u8_def)
qed (simp add: suback_from_u8_def)

lemma suback_from_u8_SomeD: "suback_from_u8 v = Some c \<Longrightarrow> v = suback_as_u8 c"
  by (auto simp: suback_from_u8_def split: if_splits)

lemma connack_try_from_as [simp, byte_simps]: "connack_try_from (connack_as_u8 c) = Some c"
  by (cases c) (simp_all add: connack_try_from_def)

lemma packet_type_try_from_as [simp, byte_simps]:
  "packet_type_try_from (packet_type_as_u8 t) = Some t"
  by (cases t) (simp_all add: packet_type_try_from_def)

lemma packet_type_try_from_SomeD: "packet_type_try_from v = Some t \<Longrightarrow> v = packet_type_as_u8 t"
  by (auto simp: packet_type_try_from_def split: if_splits)

lemma AtMostOnce_least [simp]: "AtMostOnce \<le> q"
  by (cases q) (simp_all add: less_eq_qos_def)

lemma qos_pos_iff: "AtMostOnce < q \<longleftrightarrow> q \<noteq> AtMostOnce"
  by (cases q) (simp_all add: less_qos_def)

lemma min_AtMostOnce [simp]:
  "min AtMostOnce q = AtMostOnce" "min q AtMostOnce = AtMostOnce"
  by (simp_all add: min_absorb1 min_absorb2)

lemma min_qos_eq_AtMostOnce: "min a b = AtMostOnce \<longleftrightarrow> a = AtMostOnce \<or> b = AtMostOnce"
  by (metis AtMostOnce_least antisym min_def)

end
