(* ===== verification/Mqtt_Wire.thy ===== *)
theory Mqtt_Wire
  imports Mqtt_Packet
begin

text \<open>
  \<^verbatim>\<open>src/src/codec/varint.rs\<close> and \<^verbatim>\<open>src/src/codec/primitives.rs\<close>: the remaining-length field, and the
  length-prefixed readers and writers the packet codecs are built from. A reader is the bytes that
  have arrived together with what follows them: the end of the stream, or silence.
\<close>

section \<open>Readers\<close>

datatype stream_end = Eof | Stalled

record reader =
  rd_bytes :: "u8 list"
  rd_end :: stream_end

text \<open>\<^verbatim>\<open>AsyncReadExt::read_exact\<close> into a buffer of \<open>n\<close> bytes.\<close>

definition read_exact :: "usize \<Rightarrow> reader \<Rightarrow> (u8 list \<times> reader) result" where
  "read_exact n r =
     (if n \<le> length (rd_bytes r)
      then Ok (take n (rd_bytes r), r\<lparr>rd_bytes := drop n (rd_bytes r)\<rparr>)
      else (case rd_end r of Eof \<Rightarrow> Err (Io IoUnexpectedEof) | Stalled \<Rightarrow> Pending))"

section \<open>Remaining length\<close>

text \<open>
  The loop \<^verbatim>\<open>for i in 0..4\<close> of \<open>read_remaining_length\<close>; falling out of it is the source's
  \<^verbatim>\<open>unreachable!()\<close>.
\<close>

function rrl_loop :: "nat \<Rightarrow> usize \<Rightarrow> usize \<Rightarrow> reader \<Rightarrow> (usize \<times> reader) result" where
  "rrl_loop i res mul r =
     (if 4 \<le> i then Panic
      else obind (read_exact 1 r) (\<lambda>(byte, r').
        obind (index_at byte 0) (\<lambda>b.
          let res' = res + unat (b AND 0x7F) * mul; mul' = mul * 128 in
          if b AND 0x80 = 0 then Ok (res', r')
          else if i = 3 then Err (Codec MalformedLength)
          else rrl_loop (i + 1) res' mul' r')))"
  by pat_completeness auto
termination
  by (relation "measure (\<lambda>(i, _). 4 - i)") auto

declare rrl_loop.simps [simp del]

definition read_remaining_length :: "reader \<Rightarrow> (usize \<times> reader) result" where
  "read_remaining_length r = rrl_loop 0 0 1 r"

fun drl_loop :: "nat \<Rightarrow> usize \<Rightarrow> usize \<Rightarrow> u8 list \<Rightarrow> (usize \<times> usize) option result" where
  "drl_loop i res mul [] = Ok None"
| "drl_loop i res mul (b # data) =
     (let res' = res + unat (b AND 0x7F) * mul; mul' = mul * 128 in
      if b AND 0x80 = 0 then Ok (Some (res', i + 1))
      else if 3 \<le> i then Err (Codec MalformedLength)
      else drl_loop (i + 1) res' mul' data)"

definition decode_remaining_length_from_slice :: "u8 list \<Rightarrow> (usize \<times> usize) option result" where
  "decode_remaining_length_from_slice data = drl_loop 0 0 1 data"

function encode_remaining_length :: "usize \<Rightarrow> u8 list" where
  "encode_remaining_length value =
     (let byte = word_of_nat (value mod 128); value' = value div 128;
          byte' = (if 0 < value' then byte OR 0x80 else byte)
      in if value' = 0 then [byte'] else byte' # encode_remaining_length value')"
  by pat_completeness auto
termination
  by (relation "measure id") (auto simp: div_eq_0_iff not_less)

declare encode_remaining_length.simps [simp del]

section \<open>Length-prefixed fields\<close>

text \<open>The \<^verbatim>\<open>&mut usize\<close> cursor is passed in and returned; on an error it is not used again.\<close>

definition read_u16 :: "u8 list \<Rightarrow> usize \<Rightarrow> (u16 \<times> usize) result" where
  "read_u16 body cursor =
     (if cursor + 2 > length body then Err (Codec UnexpectedEof)
      else obind (index_at body cursor) (\<lambda>a.
        obind (index_at body (cursor + 1)) (\<lambda>b.
          Ok (u16_from_be_bytes a b, cursor + 2))))"

definition read_arc_str :: "u8 list \<Rightarrow> usize \<Rightarrow> (rstr \<times> usize) result" where
  "read_arc_str body cursor =
     obind (read_u16 body cursor) (\<lambda>(w, cursor).
       let len = unat w in
       if cursor + len > length body then Err (Codec UnexpectedEof)
       else obind (slice_of body cursor (cursor + len)) (\<lambda>bytes.
         obind (ok_or (from_utf8 bytes) (Codec InvalidUtf8)) (\<lambda>s.
           Ok (s, cursor + len))))"

definition read_bytes :: "u8 list \<Rightarrow> usize \<Rightarrow> (u8 list \<times> usize) result" where
  "read_bytes body cursor =
     obind (read_u16 body cursor) (\<lambda>(w, cursor).
       let len = unat w in
       if cursor + len > length body then Err (Codec UnexpectedEof)
       else obind (slice_of body cursor (cursor + len)) (\<lambda>v.
         Ok (v, cursor + len)))"

definition write_arc_str :: "u8 list \<Rightarrow> rstr \<Rightarrow> u8 list" where
  "write_arc_str out s = out @ u16_to_be_bytes (as_u16 (length (as_bytes s))) @ as_bytes s"

definition write_bytes :: "u8 list \<Rightarrow> u8 list \<Rightarrow> u8 list" where
  "write_bytes out b = out @ u16_to_be_bytes (as_u16 (length b)) @ b"

section \<open>Lemmas: the remaining-length field\<close>

lemma seven_bits: "b AND 0x7F = take_bit 7 (b :: u8)"
  by (simp add: take_bit_eq_mask mask_eq_exp_minus_1)

lemma continuation_bit: "b AND 0x80 = 0 \<longleftrightarrow> \<not> bit (b :: u8) 7"
  using and_exp_eq_0_iff_not_bit [of b 7] by simp

lemma low_byte_simps:
  assumes "n < 128"
  shows "(word_of_nat n :: u8) AND 0x80 = 0"
    and "((word_of_nat n :: u8) OR 0x80) AND 0x80 \<noteq> 0"
    and "unat ((word_of_nat n :: u8) AND 0x7F) = n"
    and "unat (((word_of_nat n :: u8) OR 0x80) AND 0x7F) = n"
proof -
  have t: "take_bit 7 n = n" using assms by (simp add: take_bit_nat_eq_self)
  then have n7: "\<not> bit n 7" by (metis bit_take_bit_iff less_irrefl)
  then show "(word_of_nat n :: u8) AND 0x80 = 0"
    by (simp add: continuation_bit bit_simps)
  show "((word_of_nat n :: u8) OR 0x80) AND 0x80 \<noteq> 0"
    by (simp add: continuation_bit bit_simps)
  have u: "unat (take_bit 7 (word_of_nat n :: u8)) = n"
    using t assms by (simp add: unsigned_take_bit_eq unsigned_of_nat take_bit_nat_eq_self)
  then show "unat ((word_of_nat n :: u8) AND 0x7F) = n" by (simp add: seven_bits)
  have "take_bit 7 ((word_of_nat n :: u8) OR 0x80) = take_bit 7 (word_of_nat n)"
    by (simp add: take_bit_or)
  with u show "unat (((word_of_nat n :: u8) OR 0x80) AND 0x7F) = n" by (simp add: seven_bits)
qed

lemma unat_seven_bits: "unat (b AND 0x7F :: u8) < 128"
proof -
  have "unat (take_bit 7 b) = take_bit 7 (unat b)" by (rule unsigned_take_bit_eq)
  also have "\<dots> < 2 ^ 7" by (rule take_bit_nat_less_exp)
  finally show ?thesis by (simp add: seven_bits)
qed

lemma pow128_step: "i \<le> 3 \<Longrightarrow> (128 :: nat) ^ (4 - i) = 128 ^ (4 - (i + 1)) * 128"
  proof -
  assume "i \<le> 3"
  then have "4 - i = Suc (4 - (i + 1))" by arith
  then show ?thesis by (simp only: power_Suc2)
qed

lemma drl_loop_encode:
  "v < 128 ^ (4 - i) \<Longrightarrow> i < 4 \<Longrightarrow>
   drl_loop i res mul (encode_remaining_length v @ rest) =
     Ok (Some (res + v * mul, i + length (encode_remaining_length v)))"
proof (induction v arbitrary: i res mul rule: encode_remaining_length.induct)
  case (1 v)
  have m: "v mod 128 < 128" by simp
  show ?case
  proof (cases "v div 128 = 0")
    case True
    then have "v < 128" by (simp add: div_eq_0_iff)
    then show ?thesis
      by (simp add: encode_remaining_length.simps [of v] low_byte_simps)
  next
    case False
    with "1.prems" have i: "i < 3"
      by (cases "i = 3") (auto simp: div_eq_0_iff)
    with "1.prems" have lt: "v div 128 < 128 ^ (4 - (i + 1))"
      using pow128_step [of i] by (simp only: less_mult_imp_div_less less_imp_le)
    have IH: "drl_loop (Suc i) res' mul' (encode_remaining_length (v div 128) @ rest) =
        Ok (Some (res' + v div 128 * mul', Suc i + length (encode_remaining_length (v div 128))))"
      for res' mul'
      using "1.IH" [OF refl refl refl False lt] i by simp
    have "(v div 128 * 128 + v mod 128) * mul = v * mul" by simp
    then have "v mod 128 * mul + v div 128 * (mul * 128) = v * mul"
      unfolding add_mult_distrib by (simp only: ac_simps)
    with False i show ?thesis
      by (simp add: encode_remaining_length.simps [of v] low_byte_simps [OF m] Let_def IH)
  qed
qed

lemma length_encode_remaining_length:
  "v < 128 ^ k \<Longrightarrow> 0 < k \<Longrightarrow>
   1 \<le> length (encode_remaining_length v) \<and> length (encode_remaining_length v) \<le> k"
proof (induction v arbitrary: k rule: encode_remaining_length.induct)
  case (1 v)
  show ?case
  proof (cases "v div 128 = 0")
    case True
    with "1.prems" show ?thesis by (simp add: encode_remaining_length.simps [of v])
  next
    case False
    then have "\<not> v < 128" by (simp add: div_eq_0_iff)
    with "1.prems" obtain j where j: "k = Suc j" "0 < j"
      by (cases k; cases "k = 1") auto
    with "1.prems" have "v div 128 < 128 ^ j" by (simp add: less_mult_imp_div_less mult.commute)
    with "1.IH" [OF refl refl refl False] j(2)
    have "length (encode_remaining_length (v div 128)) \<le> j" by blast
    with j(1) False show ?thesis by (simp add: encode_remaining_length.simps [of v] Let_def)
  qed
qed

lemma drl_loop_encode_long:
  "128 ^ (4 - i) \<le> v \<Longrightarrow> i < 4 \<Longrightarrow>
   drl_loop i res mul (encode_remaining_length v @ rest) = Err (Codec MalformedLength)"
proof (induction v arbitrary: i res mul rule: encode_remaining_length.induct)
  case (1 v)
  have m: "v mod 128 < 128" by simp
  have "128 ^ 1 \<le> (128 :: nat) ^ (4 - i)" using "1.prems"(2) by (intro power_increasing) auto
  with "1.prems"(1) have big: "v div 128 \<noteq> 0" by (simp add: div_eq_0_iff)
  show ?case
  proof (cases "i = 3")
    case True
    with big show ?thesis
      by (simp add: encode_remaining_length.simps [of v] low_byte_simps [OF m] Let_def)
  next
    case False
    with "1.prems"(2) have i: "i < 3" by simp
    with "1.prems"(1) have "128 ^ (4 - (i + 1)) * 128 \<le> v"
      using pow128_step [of i] by simp
    then have "128 ^ (4 - (i + 1)) \<le> v div 128" by (simp add: less_eq_div_iff_mult_less_eq)
    with "1.IH" [OF refl refl refl big] i big show ?thesis
      by (simp add: encode_remaining_length.simps [of v] low_byte_simps [OF m] Let_def)
  qed
qed

lemma drl_loop_bounds:
  "drl_loop i res mul data = Ok (Some (n, k)) \<Longrightarrow> i \<le> 3 \<Longrightarrow>
   i < k \<and> k \<le> 4 \<and> k \<le> i + length data \<and> n + mul \<le> res + 128 ^ (4 - i) * mul"
proof (induction i res mul data rule: drl_loop.induct)
  case (1 i res mul)
  then show ?case by simp
next
  case (2 i res mul b data)
  have b: "unat (b AND 0x7F) < 128" by (rule unat_seven_bits)
  then have bm: "unat (b AND 0x7F) * mul + mul \<le> 128 * mul"
    by (metis Suc_leI add.commute mult_Suc mult_le_mono1)
  have p: "128 ^ (4 - i) = 128 ^ (4 - (i + 1)) * (128 :: nat)"
    using "2.prems"(2) by (rule pow128_step)
  have "1 \<le> (128 :: nat) ^ (4 - (i + 1))" by simp
  then have grow: "128 * mul \<le> 128 ^ (4 - i) * mul"
    unfolding p by (simp add: mult.commute)
  show ?case
  proof (cases "b AND 0x80 = 0")
    case True
    with "2.prems" have "n = res + unat (b AND 0x7F) * mul" "k = i + 1"
      by (simp_all add: Let_def)
    moreover have "unat (b AND 0x7F) * mul + mul \<le> 128 ^ (4 - i) * mul"
      using bm grow by (rule order_trans)
    ultimately show ?thesis using "2.prems"(2) by simp
  next
    case False
    with "2.prems"(1) have i: "i < 3" by (auto simp: Let_def split: if_splits)
    with "2.IH" [OF refl refl False] "2.prems"(1) False
    have "i + 1 < k \<and> k \<le> 4 \<and> k \<le> i + 1 + length data \<and>
        n + mul * 128 \<le> res + unat (b AND 0x7F) * mul + 128 ^ (4 - (i + 1)) * (mul * 128)"
      by (simp add: Let_def)
    moreover have "128 ^ (4 - (i + 1)) * (mul * 128) = 128 ^ (4 - i) * mul"
      unfolding p by (simp add: ac_simps)
    ultimately have k: "i + 1 < k" "k \<le> 4" "k \<le> i + 1 + length data"
      and n: "n + mul * 128 \<le> res + unat (b AND 0x7F) * mul + 128 ^ (4 - i) * mul" by metis+
    from n bm have "n + mul \<le> res + 128 ^ (4 - i) * mul" by linarith
    with k show ?thesis by simp
  qed
qed

text \<open>
  The asynchronous reader and the buffered decoder run the same loop: on the same bytes they reach
  the same verdict, and where the slice decoder asks for more input the reader sees the end of the
  stream or keeps waiting.
\<close>

definition reader_of_slice :: "nat \<Rightarrow> reader \<Rightarrow> (usize \<times> usize) option result \<Rightarrow> (usize \<times> reader) result"
  where "reader_of_slice i r m = obind m (\<lambda>res.
     case res of
       None \<Rightarrow> (case rd_end r of Eof \<Rightarrow> Err (Io IoUnexpectedEof) | Stalled \<Rightarrow> Pending)
     | Some (n, k) \<Rightarrow> Ok (n, r\<lparr>rd_bytes := drop (k - i) (rd_bytes r)\<rparr>))"

lemma read_exact_1:
  "read_exact (Suc 0) r = (case rd_bytes r of
     [] \<Rightarrow> (case rd_end r of Eof \<Rightarrow> Err (Io IoUnexpectedEof) | Stalled \<Rightarrow> Pending)
   | b # bs \<Rightarrow> Ok ([b], r\<lparr>rd_bytes := bs\<rparr>))"
  by (auto simp: read_exact_def split: list.splits)

lemma rrl_loop_slice:
  "i \<le> 3 \<Longrightarrow> rrl_loop i res mul r = reader_of_slice i r (drl_loop i res mul (rd_bytes r))"
proof (induction "rd_bytes r" arbitrary: i res mul r)
  case Nil
  then show ?case
    by (simp add: rrl_loop.simps [of i] read_exact_1 reader_of_slice_def [abs_def] split: stream_end.split)
next
  case (Cons b data)
  let ?r = "r\<lparr>rd_bytes := data\<rparr>"
  have r: "rd_bytes r = b # data" using Cons.hyps(2) by simp
  show ?case
  proof (cases "b AND 0x80 = 0 \<or> i = 3")
    case True
    with r Cons.prems show ?thesis
      by (auto simp: rrl_loop.simps [of i] read_exact_1 reader_of_slice_def Let_def)
  next
    case False
    with Cons.prems have i: "i + 1 \<le> 3" by simp
    define res' where "res' = res + unat (b AND 0x7F) * mul"
    have IH: "rrl_loop (i + 1) res' (mul * 128) ?r =
        reader_of_slice (i + 1) ?r (drl_loop (i + 1) res' (mul * 128) data)"
      using Cons.hyps(1) [of ?r "i + 1"] i by simp
    have "reader_of_slice (i + 1) ?r m = reader_of_slice i r m"
      if "m = drl_loop (i + 1) res' (mul * 128) data" for m
    proof (cases m)
      case (Ok x)
      then show ?thesis
      proof (cases x)
        case (Some nk)
        then obtain n k where nk: "x = Some (n, k)" by (cases nk) auto
        with Ok that drl_loop_bounds [of "i + 1" res' "mul * 128" data n k] i
        have "i + 1 < k" by simp
        then have "k - i = Suc (k - (i + 1))" by arith
        with Ok nk r show ?thesis by (simp add: reader_of_slice_def)
      qed (simp add: reader_of_slice_def)
    qed (simp_all add: reader_of_slice_def)
    with IH False r i show ?thesis
      by (simp add: rrl_loop.simps [of i] read_exact_1 Let_def res'_def [symmetric])
  qed
qed

lemma drl_loop_returns: "returns (drl_loop i res mul data)"
  by (induction i res mul data rule: drl_loop.induct) (auto simp: Let_def)

section \<open>Lemmas: length-prefixed fields\<close>

text \<open>
  The cursor readers are characterised on a body whose remainder at the cursor starts with the field:
  the value comes back and the cursor moves past it.
\<close>

lemma drop_advance: "drop c body = xs @ post \<Longrightarrow> drop (c + length xs) body = post"
  by (metis append_eq_conv_conj drop_drop add.commute)

lemma drop_eq_append_length: "drop c body = xs @ post \<Longrightarrow> xs \<noteq> [] \<Longrightarrow> length body = c + length xs + length post"
  by (metis append_Nil add.assoc drop_all append_is_Nil_conv le_add_diff_inverse length_append
      length_drop linorder_le_cases)

lemma drop_eq_Cons_nth: "drop c body = x # post \<Longrightarrow> c < length body \<and> body ! c = x"
  by (metis append_Nil drop_all hd_drop_conv_nth list.distinct(1) list.sel(1) linorder_not_le)

lemma read_u16_at:
  assumes "drop c body = u16_to_be_bytes w @ post"
  shows "read_u16 body c = Ok (w, c + 2)"
proof -
  have l: "length body = c + 2 + length post"
    using drop_eq_append_length [OF assms] by (simp add: u16_to_be_bytes_def)
  have "drop c body = ucast (drop_bit 8 w) # ucast w # post"
    using assms by (simp add: u16_to_be_bytes_def)
  then have "body ! c = ucast (drop_bit 8 w)" "body ! (c + 1) = ucast w"
    using drop_eq_Cons_nth drop_advance [of c body "[ucast (drop_bit 8 w)]"] by force+
  with l show ?thesis by (simp add: read_u16_def)
qed

lemma read_bytes_at:
  assumes "drop c body = write_bytes [] b @ post" and "length b < 65536"
  shows "read_bytes body c = Ok (b, c + 2 + length b)"
proof -
  let ?w = "as_u16 (length b)"
  have at: "drop c body = u16_to_be_bytes ?w @ b @ post"
    using assms(1) by (simp add: write_bytes_def)
  have rest: "drop (c + 2) body = b @ post"
    using drop_advance [OF at] by simp
  have "length body = c + 2 + length b + length post"
    using drop_eq_append_length [OF at] by (simp add: u16_to_be_bytes_def)
  with rest assms(2) show ?thesis
    by (simp add: read_bytes_def read_u16_at [OF at])
qed

lemma read_arc_str_at:
  assumes "drop c body = write_arc_str [] s @ post" and "is_str s" and "length s < 65536"
  shows "read_arc_str body c = Ok (s, c + 2 + length s)"
proof -
  let ?w = "as_u16 (length s)"
  have at: "drop c body = u16_to_be_bytes ?w @ as_bytes s @ post"
    using assms(1) by (simp add: write_arc_str_def)
  have rest: "drop (c + 2) body = as_bytes s @ post"
    using drop_advance [OF at] by simp
  have "length body = c + 2 + length s + length post"
    using drop_eq_append_length [OF at] by (simp add: u16_to_be_bytes_def)
  with rest assms(2,3) show ?thesis
    by (simp add: read_arc_str_def read_u16_at [OF at])
qed

lemma read_u16_returns [simp]: "returns (read_u16 body c)"
  by (simp add: read_u16_def returns_obind)

lemma read_arc_str_returns [simp]: "returns (read_arc_str body c)"
  by (auto simp: read_arc_str_def Let_def intro!: returns_obind)

lemma read_bytes_returns [simp]: "returns (read_bytes body c)"
  by (auto simp: read_bytes_def Let_def intro!: returns_obind)

lemma read_u16_OkD:
  assumes "read_u16 body c = Ok (w, c')"
  shows "c' = c + 2 \<and> c' \<le> length body \<and> drop c body = u16_to_be_bytes w @ drop c' body"
proof -
  from assms have l: "c + 2 \<le> length body" and w: "w = u16_from_be_bytes (body ! c) (body ! (c + 1))"
    and c': "c' = c + 2"
    by (auto simp: read_u16_def outcome_simps split: if_splits)
  from l have "drop c body = body ! c # body ! (c + 1) # drop (c + 2) body"
    by (simp add: Cons_nth_drop_Suc)
  with l w c' show ?thesis by simp
qed

lemma read_arc_str_OkD:
  assumes "read_arc_str body c = Ok (s, c')"
  shows "c' = c + 2 + length s \<and> c' \<le> length body \<and> is_str s \<and> length s < 65536 \<and>
    drop c body = write_arc_str [] s @ drop c' body"
proof -
  from assms obtain w c1 where r: "read_u16 body c = Ok (w, c1)"
    and l: "c1 + unat w \<le> length body" and c': "c' = c1 + unat w"
    and u: "from_utf8 (take (unat w) (drop c1 body)) = Some s"
    by (auto simp: read_arc_str_def outcome_simps Let_def split: if_splits)
  note r1 = read_u16_OkD [OF r]
  from from_utf8_SomeD [OF u] have s: "is_str s" and b: "as_bytes s = take (unat w) (drop c1 body)"
    by auto
  from arg_cong [OF b, of length] l have len: "length s = unat w" by simp
  then have w: "as_u16 (length s) = w" by (simp add: as_u16_def)
  have "drop c1 body = as_bytes s @ drop c' body"
    unfolding b c' by (metis add.commute append_take_drop_id drop_drop)
  with r1 w len s c' l show ?thesis by (simp add: write_arc_str_def)
qed

lemma read_bytes_OkD:
  assumes "read_bytes body c = Ok (b, c')"
  shows "c' = c + 2 + length b \<and> c' \<le> length body \<and> length b < 65536 \<and>
    drop c body = write_bytes [] b @ drop c' body"
proof -
  from assms obtain w c1 where r: "read_u16 body c = Ok (w, c1)"
    and l: "c1 + unat w \<le> length body" and c': "c' = c1 + unat w"
    and b: "b = take (unat w) (drop c1 body)"
    by (auto simp: read_bytes_def outcome_simps Let_def split: if_splits)
  note r1 = read_u16_OkD [OF r]
  from b l have len: "length b = unat w" by simp
  then have w: "as_u16 (length b) = w" by (simp add: as_u16_def)
  have "drop c1 body = b @ drop c' body"
    unfolding b c' by (metis add.commute append_take_drop_id drop_drop)
  with r1 w len c' l show ?thesis by (simp add: write_bytes_def)
qed

end
