(* ===== verification/Mqtt_Encode.thy ===== *)
theory Mqtt_Encode
  imports Mqtt_Wire
begin

text \<open>
  \<^verbatim>\<open>src/src/codec/encode.rs\<close> and the encoding half of \<^verbatim>\<open>src/src/codec/mod.rs\<close>: one definition per
  encoder. A \<^verbatim>\<open>Vec<u8>\<close> that is pushed to is the list of its bytes.
\<close>

section \<open>Encoders\<close>

text \<open>The tail every encoder shares: \<^verbatim>\<open>buf = vec![first]\<close>, remaining length, body.\<close>

definition frame :: "u8 \<Rightarrow> u8 list \<Rightarrow> u8 list" where
  "frame first body = [first] @ encode_remaining_length (length body) @ body"

definition type_nibble :: "packet_type \<Rightarrow> u8" where
  "type_nibble t = push_bit 4 (packet_type_as_u8 t)"

definition connect_flags :: "connect_packet \<Rightarrow> u8" where
  "connect_flags conn =
     (let flags = 0;
          flags = (if con_clean_session conn then flags OR CF_CleanSession else flags);
          flags = (case con_will conn of
                     None \<Rightarrow> flags
                   | Some will \<Rightarrow>
                       (let flags = flags OR CF_WillFlag;
                            flags = flags OR (push_bit 3 (qos_as_u8 (wp_qos will)) AND CF_WillQoSMask)
                        in if wp_retain will then flags OR CF_WillRetain else flags));
          flags = (if con_username conn \<noteq> None then flags OR CF_Username else flags);
          flags = (if con_password conn \<noteq> None then flags OR CF_Password else flags)
      in flags)"

definition connect_body :: "connect_packet \<Rightarrow> u8 list" where
  "connect_body conn =
     (let body = [0x00, 0x04] @ as_bytes ''MQTT'';
          body = body @ [0x04];
          body = body @ [connect_flags conn];
          body = body @ u16_to_be_bytes (con_keep_alive conn);
          body = write_arc_str body (con_client_id conn);
          body = (case con_will conn of
                    None \<Rightarrow> body
                  | Some will \<Rightarrow> write_bytes (write_arc_str body (wp_topic will)) (wp_payload will));
          body = (case con_username conn of None \<Rightarrow> body | Some u \<Rightarrow> write_arc_str body u);
          body = (case con_password conn of None \<Rightarrow> body | Some p \<Rightarrow> write_bytes body p)
      in body)"

definition encode_connect :: "connect_packet \<Rightarrow> u8 list" where
  "encode_connect conn = frame (type_nibble TConnect) (connect_body conn)"

definition encode_connack :: "connack_packet \<Rightarrow> u8 list" where
  "encode_connack ack =
     [type_nibble TConnack, 0x02, (if ack_session_present ack then 0x01 else 0x00),
      connack_as_u8 (ack_return_code ack)]"

definition validate_publish_for_encode :: "publish_packet \<Rightarrow> (codec_error, packet_id option) outcome"
  where
  "validate_publish_for_encode publish =
     (let topic_length = length (as_bytes (pub_topic publish)) in
      if topic_length > 65535 then Err (CodecTopicTooLong topic_length 65535)
      else if pub_qos publish = AtMostOnce then Ok None
      else (case pub_packet_id publish of
              None \<Rightarrow> Err MissingPacketId
            | Some i \<Rightarrow> if i = 0 then Err ZeroPacketId else Ok (Some i)))"

definition pack_publish_flags :: "publish_packet \<Rightarrow> u8" where
  "pack_publish_flags p =
     (let flags = 0;
          flags = (if pub_dup p then flags OR FH_Dup else flags);
          flags = (if pub_retain p then flags OR FH_Retain else flags)
      in flags OR (push_bit 1 (qos_as_u8 (pub_qos p)) AND FH_QoS))"

definition publish_header :: "publish_packet \<Rightarrow> packet_id option \<Rightarrow> u8 list" where
  "publish_header publish packet_id =
     (let topic_bytes = as_bytes (pub_topic publish) in
      u16_to_be_bytes (as_u16 (length topic_bytes)) @ topic_bytes @
      (case packet_id of None \<Rightarrow> [] | Some i \<Rightarrow> u16_to_be_bytes i))"

definition encode_publish :: "publish_packet \<Rightarrow> (codec_error, u8 list) outcome" where
  "encode_publish publish =
     obind (validate_publish_for_encode publish) (\<lambda>packet_id.
       let body = publish_header publish packet_id @ pub_payload publish in
       if length body > MQTT_SPEC_MAX_PACKET_SIZE
       then Err (BodyTooLong (length body) MQTT_SPEC_MAX_PACKET_SIZE)
       else Ok (frame (type_nibble TPublish OR pack_publish_flags publish) body))"

fun write_subscriptions :: "u8 list \<Rightarrow> topic_subscription list \<Rightarrow> u8 list" where
  "write_subscriptions body [] = body"
| "write_subscriptions body (sub # subs) =
     write_subscriptions (write_arc_str body (ts_topic sub) @ [qos_as_u8 (ts_qos sub)]) subs"

definition subscribe_body :: "subscribe_packet \<Rightarrow> u8 list" where
  "subscribe_body s = write_subscriptions (u16_to_be_bytes (sub_packet_id s)) (sub_subscriptions s)"

definition encode_subscribe :: "subscribe_packet \<Rightarrow> u8 list" where
  "encode_subscribe s = frame (type_nibble TSubscribe OR 0x02) (subscribe_body s)"

definition suback_body :: "suback_packet \<Rightarrow> u8 list" where
  "suback_body s = u16_to_be_bytes (suback_packet_id s) @ map suback_as_u8 (suback_return_codes s)"

definition encode_suback :: "suback_packet \<Rightarrow> u8 list" where
  "encode_suback s = frame (type_nibble TSuback) (suback_body s)"

fun write_topics :: "u8 list \<Rightarrow> rstr list \<Rightarrow> u8 list" where
  "write_topics body [] = body"
| "write_topics body (topic # topics) = write_topics (write_arc_str body topic) topics"

definition unsubscribe_body :: "unsubscribe_packet \<Rightarrow> u8 list" where
  "unsubscribe_body u = write_topics (u16_to_be_bytes (unsub_packet_id u)) (unsub_topics u)"

definition encode_unsubscribe :: "unsubscribe_packet \<Rightarrow> u8 list" where
  "encode_unsubscribe u = frame (type_nibble TUnsubscribe OR 0x02) (unsubscribe_body u)"

text \<open>The four-byte acknowledgement literals of \<open>encode_packet\<close>.\<close>

definition ack_bytes :: "u8 \<Rightarrow> packet_id \<Rightarrow> u8 list" where
  "ack_bytes first i = [first, 0x02, ucast (drop_bit 8 i), ucast (i AND 0xFF)]"

fun encode_packet :: "packet \<Rightarrow> (codec_error, u8 list) outcome" where
  "encode_packet (Connect connect) = Ok (encode_connect connect)"
| "encode_packet (Connack connack) = Ok (encode_connack connack)"
| "encode_packet (Publish publish) = encode_publish publish"
| "encode_packet (Puback i) = Ok (ack_bytes 0x40 i)"
| "encode_packet (Pubrec i) = Ok (ack_bytes 0x50 i)"
| "encode_packet (Pubrel i) = Ok (ack_bytes 0x62 i)"
| "encode_packet (Pubcomp i) = Ok (ack_bytes 0x70 i)"
| "encode_packet (Subscribe subscribe) = Ok (encode_subscribe subscribe)"
| "encode_packet (Suback suback) = Ok (encode_suback suback)"
| "encode_packet (Unsubscribe unsubscribe) = Ok (encode_unsubscribe unsubscribe)"
| "encode_packet (Unsuback i) = Ok (ack_bytes 0xB0 i)"
| "encode_packet Pingreq = Ok [0xC0, 0x00]"
| "encode_packet Pingresp = Ok [0xD0, 0x00]"
| "encode_packet Disconnect = Ok [0xE0, 0x00]"

section \<open>Writers\<close>

text \<open>
  A writer is the bytes written so far and how many more the wire accepts before a write fails
  (\<open>None\<close>: no failure). \<^verbatim>\<open>write_all\<close> may write a prefix before it fails.
\<close>

record wire_writer =
  wr_bytes :: "u8 list"
  wr_limit :: "nat option"

definition write_all :: "u8 list \<Rightarrow> wire_writer \<Rightarrow> unit result \<times> wire_writer" where
  "write_all bs w =
     (case wr_limit w of
        None \<Rightarrow> (Ok (), w\<lparr>wr_bytes := wr_bytes w @ bs\<rparr>)
      | Some n \<Rightarrow>
          if length bs \<le> n then (Ok (), w\<lparr>wr_bytes := wr_bytes w @ bs, wr_limit := Some (n - length bs)\<rparr>)
          else (Err (Io IoWriteFailed), w\<lparr>wr_bytes := wr_bytes w @ take n bs, wr_limit := Some 0\<rparr>))"

definition write_packet :: "packet \<Rightarrow> wire_writer \<Rightarrow> unit result \<times> wire_writer" where
  "write_packet packet w =
     (case encode_packet packet of
        Ok buf \<Rightarrow> write_all buf w
      | Err e \<Rightarrow> (Err (Codec e), w)
      | Panic \<Rightarrow> (Panic, w)
      | Pending \<Rightarrow> (Pending, w))"

definition write_publish_packet :: "publish_packet \<Rightarrow> wire_writer \<Rightarrow> unit result \<times> wire_writer" where
  "write_publish_packet packet w =
     (case map_err Codec (validate_publish_for_encode packet) of
        Ok packet_id \<Rightarrow>
          (let topic_bytes = as_bytes (pub_topic packet);
               var_header_len = 2 + length topic_bytes;
               var_header_len = (if packet_id \<noteq> None then var_header_len + 2 else var_header_len);
               body_len = var_header_len + length (pub_payload packet)
           in if body_len > MQTT_SPEC_MAX_PACKET_SIZE
              then (Err (Codec (BodyTooLong body_len MQTT_SPEC_MAX_PACKET_SIZE)), w)
              else
                (let header = [type_nibble TPublish OR pack_publish_flags packet];
                     header = header @ encode_remaining_length body_len;
                     header = header @ u16_to_be_bytes (as_u16 (length topic_bytes));
                     header = header @ topic_bytes;
                     header = (case packet_id of None \<Rightarrow> header | Some i \<Rightarrow> header @ u16_to_be_bytes i)
                 in (case write_all header w of
                       (Ok _, w') \<Rightarrow> write_all (pub_payload packet) w'
                     | (r, w') \<Rightarrow> (r, w'))))
      | Err e \<Rightarrow> (Err e, w)
      | Panic \<Rightarrow> (Panic, w)
      | Pending \<Rightarrow> (Pending, w))"

section \<open>Lemmas\<close>

lemma length_write_arc_str [simp]: "length (write_arc_str out s) = length out + 2 + length s"
  by (simp add: write_arc_str_def)

lemma length_write_bytes [simp]: "length (write_bytes out b) = length out + 2 + length b"
  by (simp add: write_bytes_def)

lemma write_arc_str_append: "write_arc_str out s = out @ write_arc_str [] s"
  by (simp add: write_arc_str_def)

lemma write_bytes_append: "write_bytes out b = out @ write_bytes [] b"
  by (simp add: write_bytes_def)

lemma write_subscriptions_append: "write_subscriptions out subs = out @ write_subscriptions [] subs"
proof (induction subs arbitrary: out)
  case Nil
  then show ?case by simp
next
  case (Cons sub subs)
  show ?case
    using Cons [of "write_arc_str out (ts_topic sub) @ [qos_as_u8 (ts_qos sub)]"]
      Cons [of "write_arc_str [] (ts_topic sub) @ [qos_as_u8 (ts_qos sub)]"]
    by (simp add: write_arc_str_append [of out])
qed

lemma write_topics_append: "write_topics out topics = out @ write_topics [] topics"
proof (induction topics arbitrary: out)
  case Nil
  then show ?case by simp
next
  case (Cons topic topics)
  show ?case
    using Cons [of "write_arc_str out topic"] Cons [of "write_arc_str [] topic"]
    by (simp add: write_arc_str_append [of out])
qed

lemma encode_remaining_length_small:
  "n < 128 \<Longrightarrow> encode_remaining_length n = [word_of_nat n]"
  by (simp add: encode_remaining_length.simps [of n])

lemma ack_bytes_frame: "ack_bytes first i = frame first (u16_to_be_bytes i)"
  using to_be_and_mask [of i]
  by (simp add: ack_bytes_def frame_def encode_remaining_length_small u16_to_be_bytes_def)

lemma encode_connack_frame:
  "encode_connack ack = frame (type_nibble TConnack)
     [(if ack_session_present ack then 1 else 0), connack_as_u8 (ack_return_code ack)]"
  by (simp add: encode_connack_def frame_def encode_remaining_length_small)

lemma write_all_append:
  "(case write_all xs w of (Ok _, w') \<Rightarrow> write_all ys w' | (r, w') \<Rightarrow> (r, w')) = write_all (xs @ ys) w"
  by (auto simp: write_all_def split: option.splits)

lemma publish_frame_split:
  "frame first (publish_header p i @ pub_payload p) =
     ([first] @ encode_remaining_length (2 + length (pub_topic p) +
        (if i \<noteq> None then 2 else 0) + length (pub_payload p)) @ publish_header p i) @ pub_payload p"
  by (auto simp: frame_def publish_header_def split: option.splits)

lemma write_publish_packet_eq_write_packet: "write_publish_packet p w = write_packet (Publish p) w"
proof (cases "validate_publish_for_encode p")
  case (Ok i)
  let ?first = "type_nibble TPublish OR pack_publish_flags p"
  let ?len = "2 + length (pub_topic p) + (if i \<noteq> None then 2 else 0) + length (pub_payload p)"
  have len: "length (publish_header p i @ pub_payload p) = ?len"
    by (cases i) (simp_all add: publish_header_def)
  show ?thesis
  proof (cases "?len > MQTT_SPEC_MAX_PACKET_SIZE")
    case True
    with Ok len show ?thesis
      by (auto simp: write_publish_packet_def write_packet_def encode_publish_def Let_def)
  next
    case False
    let ?h = "[?first] @ encode_remaining_length ?len @ publish_header p i"
    have "write_packet (Publish p) w = write_all (?h @ pub_payload p) w"
      using Ok False len
      by (simp add: write_packet_def encode_publish_def Let_def publish_frame_split)
    also have "\<dots> = (case write_all ?h w of (Ok _, w') \<Rightarrow> write_all (pub_payload p) w' | (r, w') \<Rightarrow> (r, w'))"
      by (rule write_all_append [symmetric])
    also have "\<dots> = write_publish_packet p w"
      using Ok False by (cases i) (simp_all add: write_publish_packet_def publish_header_def Let_def)
    finally show ?thesis by simp
  qed
qed (simp_all add: write_publish_packet_def write_packet_def encode_publish_def)

end
