(* ===== verification/Mqtt_Decode.thy ===== *)
theory Mqtt_Decode
  imports Mqtt_Encode
begin

text \<open>
  \<^verbatim>\<open>src/src/codec/decode.rs\<close>: the packet-body parsers, with every index and slice of the source
  checked, so that a panic is an outcome and its absence a theorem.
\<close>

section \<open>Parsers\<close>

definition require_empty_body :: "usize \<Rightarrow> unit result" where
  "require_empty_body remaining =
     (if remaining \<noteq> 0 then Err (Codec (PayloadTooLong remaining 0)) else Ok ())"

definition parse_will :: "u8 list \<Rightarrow> u8 \<Rightarrow> usize \<Rightarrow> (will_packet option \<times> usize) result" where
  "parse_will body flags cursor =
     (if flags_contain flags CF_WillFlag then
        obind (read_arc_str body cursor) (\<lambda>(topic, cursor).
        obind (read_bytes body cursor) (\<lambda>(payload, cursor).
        let will_qos_bits = drop_bit 3 (flags AND CF_WillQoSMask) in
        obind (ok_or (qos_from_u8 will_qos_bits) (Codec (QosInvalid will_qos_bits))) (\<lambda>q.
        Ok (Some \<lparr>wp_topic = topic, wp_payload = payload, wp_qos = q,
                  wp_retain = flags_contain flags CF_WillRetain\<rparr>, cursor))))
      else Ok (None, cursor))"

definition parse_username :: "u8 list \<Rightarrow> u8 \<Rightarrow> usize \<Rightarrow> (rstr option \<times> usize) result" where
  "parse_username body flags cursor =
     (if flags_contain flags CF_Username then
        obind (read_arc_str body cursor) (\<lambda>(u, cursor). Ok (Some u, cursor))
      else Ok (None, cursor))"

definition parse_password :: "u8 list \<Rightarrow> u8 \<Rightarrow> usize \<Rightarrow> (u8 list option \<times> usize) result" where
  "parse_password body flags cursor =
     (if flags_contain flags CF_Password then
        obind (read_bytes body cursor) (\<lambda>(p, cursor). Ok (Some p, cursor))
      else Ok (None, cursor))"

definition parse_connect :: "u8 list \<Rightarrow> packet result" where
  "parse_connect body =
     (if length body < 10 then Err (Codec UnexpectedEof)
      else
        obind (index_at body 0) (\<lambda>b0.
        obind (index_at body 1) (\<lambda>b1.
        let proto_name_len = unat (u16_from_be_bytes b0 b1) in
        obind (slice_of body 2 6) (\<lambda>name.
        if proto_name_len \<noteq> 4 \<or> name \<noteq> as_bytes ''MQTT'' then Err (Protocol InvalidProtocolName)
        else
          obind (index_at body 6) (\<lambda>level.
          if level \<noteq> 0x04 then Err (Protocol (UnsupportedProtocolLevel level))
          else
            obind (index_at body 7) (\<lambda>flags_byte.
            obind (index_at body 8) (\<lambda>k0.
            obind (index_at body 9) (\<lambda>k1.
            let keep_alive = u16_from_be_bytes k0 k1 in
            obind (read_arc_str body 10) (\<lambda>(client_id, cursor).
            obind (parse_will body flags_byte cursor) (\<lambda>(will, cursor).
            obind (parse_username body flags_byte cursor) (\<lambda>(username, cursor).
            obind (parse_password body flags_byte cursor) (\<lambda>(password, cursor).
            Ok (Connect
              \<lparr>con_client_id = client_id,
               con_clean_session = flags_contain flags_byte CF_CleanSession,
               con_keep_alive = keep_alive, con_username = username, con_password = password,
               con_will = will\<rparr>)))))))))))))"

definition parse_connack :: "u8 list \<Rightarrow> packet result" where
  "parse_connack body =
     (if length body < 2 then Err (Codec UnexpectedEof)
      else
        obind (index_at body 0) (\<lambda>b0.
        obind (index_at body 1) (\<lambda>b1.
        let session_present = (b0 AND 0x01 \<noteq> 0) in
        obind (ok_or (connack_try_from b1) (Codec (InvalidPacketType b1))) (\<lambda>return_code.
        Ok (Connack \<lparr>ack_session_present = session_present, ack_return_code = return_code\<rparr>)))))"

definition parse_publish :: "u8 \<Rightarrow> u8 list \<Rightarrow> packet result" where
  "parse_publish first body =
     (if length body < 2 then Err (Codec UnexpectedEof)
      else
        let raw_flags = first AND 0x0F in
        obind (ok_or (fixed_header_from_bits raw_flags) (Codec ReservedFlagSet)) (\<lambda>header_flags.
        let dup = flags_contain header_flags FH_Dup;
            retain = flags_contain header_flags FH_Retain;
            qos_bits = drop_bit 1 (header_flags AND FH_QoS) in
        obind (ok_or (qos_from_u8 qos_bits) (Codec (QosInvalid qos_bits))) (\<lambda>q.
        obind (read_arc_str body 0) (\<lambda>(topic, cursor).
        obind (if q \<noteq> AtMostOnce
               then obind (read_u16 body cursor) (\<lambda>(i, cursor). Ok (Some i, cursor))
               else Ok (None, cursor)) (\<lambda>(packet_id, cursor).
        obind (slice_of body cursor (length body)) (\<lambda>payload.
        Ok (Publish \<lparr>pub_topic = topic, pub_payload = payload, pub_dup = dup, pub_qos = q,
                     pub_retain = retain, pub_packet_id = packet_id\<rparr>)))))))"

definition parse_ack_packet :: "u8 \<Rightarrow> packet_type \<Rightarrow> usize \<Rightarrow> u8 list \<Rightarrow> packet result" where
  "parse_ack_packet first packet_type remaining body =
     (if remaining \<noteq> 2 then Err (Codec (PayloadTooLong remaining 2))
      else
        let flags = first AND 0x0F;
            expected = (if packet_type = TPubrel then 0x02 else 0x00) in
        if flags \<noteq> expected then Err (Codec ReservedFlagSet)
        else
          obind (index_at body 0) (\<lambda>b0.
          obind (index_at body 1) (\<lambda>b1.
          let i = u16_from_be_bytes b0 b1 in
          Ok (case packet_type of
                TPuback \<Rightarrow> Puback i
              | TPubrec \<Rightarrow> Pubrec i
              | TPubrel \<Rightarrow> Pubrel i
              | _ \<Rightarrow> Pubcomp i))))"

text \<open>The \<^verbatim>\<open>while cursor < body.len()\<close> loop of \<open>parse_subscribe\<close>.\<close>

function parse_subscriptions ::
  "u8 list \<Rightarrow> usize \<Rightarrow> topic_subscription list \<Rightarrow> topic_subscription list result" where
  "parse_subscriptions body cursor subscriptions =
     (if cursor < length body then
        obind (read_arc_str body cursor) (\<lambda>(topic, cursor').
        if cursor' \<ge> length body then Err (Codec UnexpectedEof)
        else
          obind (index_at body cursor') (\<lambda>qos_bits.
          obind (ok_or (qos_from_u8 qos_bits) (Codec (QosInvalid qos_bits))) (\<lambda>q.
          parse_subscriptions body (cursor' + 1)
            (subscriptions @ [\<lparr>ts_topic = topic, ts_qos = q\<rparr>]))))
      else Ok subscriptions)"
  by pat_completeness auto
termination
  by (relation "measure (\<lambda>(body, cursor, _). length body - cursor)")
    (auto dest: read_arc_str_OkD)

declare parse_subscriptions.simps [simp del]

definition parse_subscribe :: "u8 list \<Rightarrow> packet result" where
  "parse_subscribe body =
     (if length body < 5 then Err (Codec UnexpectedEof)
      else
        obind (read_u16 body 0) (\<lambda>(packet_id, cursor).
        obind (parse_subscriptions body cursor []) (\<lambda>subscriptions.
        Ok (Subscribe \<lparr>sub_packet_id = packet_id, sub_subscriptions = subscriptions\<rparr>))))"

text \<open>Mapping a fallible step over a list and collecting into \<^verbatim>\<open>Result<Vec<_>, _>\<close>.\<close>

fun collect_suback_codes :: "u8 list \<Rightarrow> suback_code list result" where
  "collect_suback_codes [] = Ok []"
| "collect_suback_codes (b # bs) =
     obind (ok_or (suback_from_u8 b) (Codec (InvalidPacketType b))) (\<lambda>c.
     obind (collect_suback_codes bs) (\<lambda>cs. Ok (c # cs)))"

definition parse_suback :: "u8 list \<Rightarrow> packet result" where
  "parse_suback body =
     (if length body < 3 then Err (Codec UnexpectedEof)
      else
        obind (index_at body 0) (\<lambda>b0.
        obind (index_at body 1) (\<lambda>b1.
        let packet_id = u16_from_be_bytes b0 b1 in
        obind (slice_of body 2 (length body)) (\<lambda>rest.
        obind (collect_suback_codes rest) (\<lambda>return_codes.
        Ok (Suback \<lparr>suback_packet_id = packet_id, suback_return_codes = return_codes\<rparr>))))))"

function parse_topics :: "u8 list \<Rightarrow> usize \<Rightarrow> rstr list \<Rightarrow> rstr list result" where
  "parse_topics body cursor topics =
     (if cursor < length body then
        obind (read_arc_str body cursor) (\<lambda>(topic, cursor').
          parse_topics body cursor' (topics @ [topic]))
      else Ok topics)"
  by pat_completeness auto
termination
  by (relation "measure (\<lambda>(body, cursor, _). length body - cursor)")
    (auto dest: read_arc_str_OkD)

declare parse_topics.simps [simp del]

definition parse_unsubscribe :: "u8 list \<Rightarrow> packet result" where
  "parse_unsubscribe body =
     (if length body < 4 then Err (Codec UnexpectedEof)
      else
        obind (read_u16 body 0) (\<lambda>(packet_id, cursor).
        obind (parse_topics body cursor []) (\<lambda>topics.
        Ok (Unsubscribe \<lparr>unsub_packet_id = packet_id, unsub_topics = topics\<rparr>))))"

definition parse_unsuback :: "usize \<Rightarrow> u8 list \<Rightarrow> packet result" where
  "parse_unsuback remaining body =
     (if remaining \<noteq> 2 then Err (Codec (PayloadTooLong remaining 2))
      else
        obind (index_at body 0) (\<lambda>b0.
        obind (index_at body 1) (\<lambda>b1.
        Ok (Unsuback (u16_from_be_bytes b0 b1)))))"

fun parse_packet :: "u8 \<Rightarrow> packet_type \<Rightarrow> usize \<Rightarrow> u8 list \<Rightarrow> packet result" where
  "parse_packet first TConnect remaining body = parse_connect body"
| "parse_packet first TConnack remaining body = parse_connack body"
| "parse_packet first TPublish remaining body = parse_publish first body"
| "parse_packet first TPuback remaining body = parse_ack_packet first TPuback remaining body"
| "parse_packet first TPubrec remaining body = parse_ack_packet first TPubrec remaining body"
| "parse_packet first TPubrel remaining body = parse_ack_packet first TPubrel remaining body"
| "parse_packet first TPubcomp remaining body = parse_ack_packet first TPubcomp remaining body"
| "parse_packet first TSubscribe remaining body = parse_subscribe body"
| "parse_packet first TSuback remaining body = parse_suback body"
| "parse_packet first TUnsubscribe remaining body = parse_unsubscribe body"
| "parse_packet first TUnsuback remaining body = parse_unsuback remaining body"
| "parse_packet first TPingreq remaining body =
     obind (require_empty_body remaining) (\<lambda>_. Ok Pingreq)"
| "parse_packet first TPingresp remaining body =
     obind (require_empty_body remaining) (\<lambda>_. Ok Pingresp)"
| "parse_packet first TDisconnect remaining body =
     obind (require_empty_body remaining) (\<lambda>_. Ok Disconnect)"

section \<open>Parsing always returns\<close>

lemma parse_will_returns [simp]: "returns (parse_will body flags c)"
  by (auto simp: parse_will_def Let_def intro!: returns_obind)

lemma parse_username_returns [simp]: "returns (parse_username body flags c)"
  by (auto simp: parse_username_def intro!: returns_obind)

lemma parse_password_returns [simp]: "returns (parse_password body flags c)"
  by (auto simp: parse_password_def intro!: returns_obind)

lemma parse_connect_returns [simp]: "returns (parse_connect body)"
  by (auto simp: parse_connect_def Let_def intro!: returns_obind)

lemma parse_connack_returns [simp]: "returns (parse_connack body)"
  by (auto simp: parse_connack_def Let_def intro!: returns_obind)

lemma parse_publish_returns [simp]: "returns (parse_publish first body)"
  by (auto simp: parse_publish_def Let_def outcome_simps intro!: returns_obind
      dest!: read_arc_str_OkD read_u16_OkD split: if_splits)

lemma parse_ack_packet_returns [simp]: "returns (parse_ack_packet first t (length body) body)"
  by (auto simp: parse_ack_packet_def Let_def intro!: returns_obind)

lemma parse_subscriptions_returns [simp]: "returns (parse_subscriptions body c subs)"
proof (induction body c subs rule: parse_subscriptions.induct)
  case (1 body c subs)
  then show ?case
    by (auto simp: parse_subscriptions.simps [of body c] outcome_simps intro!: returns_obind)
qed

lemma parse_topics_returns [simp]: "returns (parse_topics body c topics)"
proof (induction body c topics rule: parse_topics.induct)
  case (1 body c topics)
  then show ?case
    by (auto simp: parse_topics.simps [of body c] outcome_simps intro!: returns_obind)
qed

lemma collect_suback_codes_returns [simp]: "returns (collect_suback_codes bs)"
  by (induction bs) (auto intro!: returns_obind)

lemma parse_packet_returns [simp]: "returns (parse_packet first t (length body) body)"
  by (cases t)
    (auto simp: parse_subscribe_def parse_suback_def parse_unsubscribe_def parse_unsuback_def
      require_empty_body_def Let_def intro!: returns_obind)

end
