(* ===== verification/Mqtt_Safety.thy ===== *)
theory Mqtt_Safety
  imports Mqtt_Packet
begin

text \<open>
  \<^verbatim>\<open>src/src/safety.rs\<close>: the wire-layer limits. Every field is optional and the default lives in the
  getter, as in the source.
\<close>

record mqtt_safety =
  sf_max_packet_size :: "usize option"
  sf_max_keep_alive :: "u16 option"
  sf_allow_disabled_keep_alive :: "bool option"

definition DEFAULT_MAX_PACKET_SIZE :: usize where
  "DEFAULT_MAX_PACKET_SIZE = 1024 * 1024"

definition DEFAULT_MAX_KEEP_ALIVE :: u16 where
  "DEFAULT_MAX_KEEP_ALIVE = 3600"

definition safety_new :: mqtt_safety where
  "safety_new = \<lparr>sf_max_packet_size = None, sf_max_keep_alive = None,
     sf_allow_disabled_keep_alive = None\<rparr>"

definition max_packet_size :: "mqtt_safety \<Rightarrow> usize" where
  "max_packet_size s = (case sf_max_packet_size s of None \<Rightarrow> DEFAULT_MAX_PACKET_SIZE | Some n \<Rightarrow> n)"

definition with_max_packet_size :: "mqtt_safety \<Rightarrow> usize \<Rightarrow> mqtt_safety" where
  "with_max_packet_size s n = s\<lparr>sf_max_packet_size := Some (min n MQTT_SPEC_MAX_PACKET_SIZE)\<rparr>"

definition max_keep_alive :: "mqtt_safety \<Rightarrow> u16" where
  "max_keep_alive s = (case sf_max_keep_alive s of None \<Rightarrow> DEFAULT_MAX_KEEP_ALIVE | Some n \<Rightarrow> n)"

definition with_max_keep_alive :: "mqtt_safety \<Rightarrow> u16 \<Rightarrow> mqtt_safety" where
  "with_max_keep_alive s secs = s\<lparr>sf_max_keep_alive := Some secs\<rparr>"

definition allows_disabled_keep_alive :: "mqtt_safety \<Rightarrow> bool" where
  "allows_disabled_keep_alive s =
     (case sf_allow_disabled_keep_alive s of None \<Rightarrow> False | Some b \<Rightarrow> b)"

definition allow_disabled_keep_alive :: "mqtt_safety \<Rightarrow> mqtt_safety" where
  "allow_disabled_keep_alive s = s\<lparr>sf_allow_disabled_keep_alive := Some True\<rparr>"

text \<open>
  The values a caller can build: \<open>new\<close> and the three setters (the fields are private to the module).
\<close>

inductive safety_built :: "mqtt_safety \<Rightarrow> bool" where
  built_new: "safety_built safety_new"
| built_size: "safety_built s \<Longrightarrow> safety_built (with_max_packet_size s n)"
| built_keep_alive: "safety_built s \<Longrightarrow> safety_built (with_max_keep_alive s k)"
| built_disabled: "safety_built s \<Longrightarrow> safety_built (allow_disabled_keep_alive s)"

lemmas safety_defs = safety_new_def max_packet_size_def with_max_packet_size_def
  max_keep_alive_def with_max_keep_alive_def allows_disabled_keep_alive_def
  allow_disabled_keep_alive_def DEFAULT_MAX_PACKET_SIZE_def MQTT_SPEC_MAX_PACKET_SIZE_def

lemma safety_built_bound: "safety_built s \<Longrightarrow> max_packet_size s \<le> MQTT_SPEC_MAX_PACKET_SIZE"
  by (induction rule: safety_built.induct) (auto simp: safety_defs split: option.splits)

text \<open>
  Whatever sequence of setters an operator applies, the packet-size cap that reaches the codec
  is expressible by the four-byte remaining-length field.
\<close>

theorem packet_size_cap_expressible:
  assumes "safety_built s"
  shows "max_packet_size s \<le> MQTT_SPEC_MAX_PACKET_SIZE"
  using assms by (rule safety_built_bound)

theorem packet_size_cap_expressible_witness:
  "max_packet_size (with_max_packet_size (allow_disabled_keep_alive safety_new) 999999999)
     \<le> MQTT_SPEC_MAX_PACKET_SIZE"
  by (rule packet_size_cap_expressible, rule built_size, rule built_disabled, rule built_new)

end
