(* ===== verification/Mqtt_Codec.thy ===== *)
theory Mqtt_Codec
  imports Mqtt_Decode Mqtt_Safety
begin

text \<open>
  \<^verbatim>\<open>src/src/codec/mod.rs\<close>: framing. \<open>read_packet\<close> takes one packet off an asynchronous reader,
  \<open>decode_packet_from_bytes\<close> off a buffer. The theory then proves the codec's contract: round trips
  for every packet type, agreement of the two framings, the size cap, incremental decoding.
\<close>

section \<open>Framing\<close>

definition read_packet :: "reader \<Rightarrow> usize \<Rightarrow> (packet \<times> reader) result" where
  "read_packet r max_size =
     obind (read_exact 1 r) (\<lambda>(header_byte, r).
     obind (index_at header_byte 0) (\<lambda>first.
     let raw_type = drop_bit 4 first in
     obind (ok_or (packet_type_try_from raw_type) (Codec (InvalidPacketType raw_type))) (\<lambda>packet_type.
     obind (read_remaining_length r) (\<lambda>(remaining, r).
     if remaining > max_size then Err (Protocol (PacketTooLarge remaining max_size))
     else
       obind (read_exact remaining r) (\<lambda>(body, r).
       obind (parse_packet first packet_type remaining body) (\<lambda>p.
       Ok (p, r)))))))"

text \<open>
  The buffered decoder returns its verdict and the buffer it leaves: \<open>split_to(total)\<close> has consumed
  the packet before the body is parsed, so a parse error consumes it too.
\<close>

definition decode_packet_from_bytes :: "u8 list \<Rightarrow> usize \<Rightarrow> packet option result \<times> u8 list" where
  "decode_packet_from_bytes buf max_size =
     (if length buf < 2 then (Ok None, buf)
      else
        let first = buf ! 0; raw_type = drop_bit 4 first in
        (case packet_type_try_from raw_type of
           None \<Rightarrow> (Err (Codec (InvalidPacketType raw_type)), buf)
         | Some packet_type \<Rightarrow>
             (case decode_remaining_length_from_slice (drop 1 buf) of
                Ok None \<Rightarrow> (Ok None, buf)
              | Ok (Some (remaining, rl_bytes)) \<Rightarrow>
                  (if remaining > max_size
                   then (Err (Protocol (PacketTooLarge remaining max_size)), buf)
                   else
                     let header_len = 1 + rl_bytes; total = header_len + remaining in
                     if length buf < total then (Ok None, buf)
                     else
                       let packet_bytes = take total buf; buf' = drop total buf;
                           body = drop header_len packet_bytes in
                       (obind (parse_packet first packet_type remaining body) (\<lambda>p. Ok (Some p)), buf'))
              | Err e \<Rightarrow> (Err e, buf)
              | Panic \<Rightarrow> (Panic, buf)
              | Pending \<Rightarrow> (Pending, buf))))"

text \<open>\<^verbatim>\<open>Message::encode\<close> and \<^verbatim>\<open>Message::decode\<close>: the framework's entry points.\<close>

definition message_encode :: "packet \<Rightarrow> u8 list \<Rightarrow> unit result \<times> u8 list" where
  "message_encode p buf =
     (case map_err Codec (encode_packet p) of
        Ok bs \<Rightarrow> (Ok (), buf @ bs)
      | Err e \<Rightarrow> (Err e, buf)
      | Panic \<Rightarrow> (Panic, buf)
      | Pending \<Rightarrow> (Pending, buf))"

definition message_decode :: "u8 list \<Rightarrow> packet option result \<times> u8 list" where
  "message_decode buf = decode_packet_from_bytes buf (max_packet_size safety_new)"

section \<open>Packets the wire format can carry\<close>

definition str_field :: "rstr \<Rightarrow> bool" where
  "str_field s \<longleftrightarrow> is_str s \<and> length s < 65536"

definition wf_will :: "will_packet \<Rightarrow> bool" where
  "wf_will w \<longleftrightarrow> str_field (wp_topic w) \<and> length (wp_payload w) < 65536"

definition wf_connect :: "connect_packet \<Rightarrow> bool" where
  "wf_connect c \<longleftrightarrow> str_field (con_client_id c) \<and> pred_option wf_will (con_will c) \<and>
     pred_option str_field (con_username c) \<and>
     pred_option (\<lambda>p. length p < 65536) (con_password c)"

definition wf_publish :: "publish_packet \<Rightarrow> bool" where
  "wf_publish p \<longleftrightarrow> str_field (pub_topic p) \<and>
     (if pub_qos p = AtMostOnce then pub_packet_id p = None
      else pub_packet_id p \<noteq> None \<and> pub_packet_id p \<noteq> Some 0) \<and>
     length (pub_topic p) + length (pub_payload p) + (if pub_qos p = AtMostOnce then 2 else 4) \<le> MQTT_SPEC_MAX_PACKET_SIZE"

definition wf_subscribe :: "subscribe_packet \<Rightarrow> bool" where
  "wf_subscribe s \<longleftrightarrow> sub_subscriptions s \<noteq> [] \<and>
     list_all (\<lambda>t. str_field (ts_topic t)) (sub_subscriptions s) \<and>
     length (subscribe_body s) \<le> MQTT_SPEC_MAX_PACKET_SIZE"

definition wf_suback :: "suback_packet \<Rightarrow> bool" where
  "wf_suback s \<longleftrightarrow> suback_return_codes s \<noteq> [] \<and>
     length (suback_body s) \<le> MQTT_SPEC_MAX_PACKET_SIZE"

definition wf_unsubscribe :: "unsubscribe_packet \<Rightarrow> bool" where
  "wf_unsubscribe u \<longleftrightarrow> unsub_topics u \<noteq> [] \<and> list_all str_field (unsub_topics u) \<and>
     length (unsubscribe_body u) \<le> MQTT_SPEC_MAX_PACKET_SIZE"

fun wf_packet :: "packet \<Rightarrow> bool" where
  "wf_packet (Connect c) = wf_connect c"
| "wf_packet (Publish p) = wf_publish p"
| "wf_packet (Subscribe s) = wf_subscribe s"
| "wf_packet (Suback s) = wf_suback s"
| "wf_packet (Unsubscribe u) = wf_unsubscribe u"
| "wf_packet _ = True"

section \<open>Body round trips\<close>

lemmas mask_defs = FH_Retain_def FH_QoS_def FH_Dup_def CF_Username_def CF_Password_def
  CF_WillRetain_def CF_WillQoSMask_def CF_WillFlag_def CF_CleanSession_def

lemma connect_flags_read:
  "flags_contain (connect_flags c) CF_CleanSession = con_clean_session c"
  "flags_contain (connect_flags c) CF_WillFlag = (con_will c \<noteq> None)"
  "flags_contain (connect_flags c) CF_Username = (con_username c \<noteq> None)"
  "flags_contain (connect_flags c) CF_Password = (con_password c \<noteq> None)"
  "con_will c = Some w \<Longrightarrow> flags_contain (connect_flags c) CF_WillRetain = wp_retain w"
  "con_will c = Some w \<Longrightarrow> drop_bit 3 (connect_flags c AND CF_WillQoSMask) = qos_as_u8 (wp_qos w)"
proof -
  define u p where "u = (con_username c \<noteq> None)" and "p = (con_password c \<noteq> None)"
  have wq: "con_will c = None \<or> (\<exists>v. con_will c = Some v \<and> wp_qos v \<in> {AtMostOnce, AtLeastOnce, ExactlyOnce})"
    by (cases "con_will c") (auto intro: qos.exhaust)
  note defs = connect_flags_def Let_def flags_contain_def mask_defs u_def [symmetric] p_def [symmetric]
  show "flags_contain (connect_flags c) CF_CleanSession = con_clean_session c"
    "flags_contain (connect_flags c) CF_WillFlag = (con_will c \<noteq> None)"
    "flags_contain (connect_flags c) CF_Username = (con_username c \<noteq> None)"
    "flags_contain (connect_flags c) CF_Password = (con_password c \<noteq> None)"
    "con_will c = Some w \<Longrightarrow> flags_contain (connect_flags c) CF_WillRetain = wp_retain w"
    "con_will c = Some w \<Longrightarrow> drop_bit 3 (connect_flags c AND CF_WillQoSMask) = qos_as_u8 (wp_qos w)"
    using wq by (auto simp: defs split: if_splits)
qed

lemmas connect_flags_qos = connect_flags_read(6) [unfolded drop_bit_and]

text \<open>Cursors stay in the form \<open>c + 2 + n\<close> in the proofs below.\<close>

lemmas no_Suc = add_2_eq_Suc add_2_eq_Suc'

definition will_field :: "will_packet option \<Rightarrow> u8 list" where
  "will_field w = (case w of None \<Rightarrow> []
     | Some v \<Rightarrow> write_arc_str [] (wp_topic v) @ write_bytes [] (wp_payload v))"

definition str_opt_field :: "rstr option \<Rightarrow> u8 list" where
  "str_opt_field u = (case u of None \<Rightarrow> [] | Some s \<Rightarrow> write_arc_str [] s)"

definition bytes_opt_field :: "u8 list option \<Rightarrow> u8 list" where
  "bytes_opt_field p = (case p of None \<Rightarrow> [] | Some b \<Rightarrow> write_bytes [] b)"

lemma connect_body_fields:
  "connect_body c =
     [0, 4, 77, 81, 84, 84, 4, connect_flags c] @ u16_to_be_bytes (con_keep_alive c) @
     write_arc_str [] (con_client_id c) @ will_field (con_will c) @
     str_opt_field (con_username c) @ bytes_opt_field (con_password c)"
proof -
  have "as_bytes ''MQTT'' = [77, 81, 84, 84]" by (simp add: byte_of_char_def)
  then show ?thesis
    unfolding connect_body_def Let_def
    by (simp add: will_field_def str_opt_field_def bytes_opt_field_def write_arc_str_def
        write_bytes_def split: option.split)
qed

lemma parse_will_at:
  assumes "drop c body = will_field (con_will conn) @ post" and "wf_connect conn"
  shows "parse_will body (connect_flags conn) c = Ok (con_will conn, c + length (will_field (con_will conn)))"
proof (cases "con_will conn")
  case None
  then show ?thesis by (simp add: parse_will_def connect_flags_read will_field_def)
next
  case (Some w)
  with assms have wf: "str_field (wp_topic w)" "length (wp_payload w) < 65536"
    by (simp_all add: wf_connect_def wf_will_def)
  have d: "drop c body = write_arc_str [] (wp_topic w) @ write_bytes [] (wp_payload w) @ post"
    using assms(1) Some by (simp add: will_field_def)
  have d2: "drop (c + 2 + length (wp_topic w)) body = write_bytes [] (wp_payload w) @ post"
    using drop_advance [OF d] by (simp add: add.assoc)
  show ?thesis
    using wf Some
    by (simp add: parse_will_def connect_flags_read connect_flags_qos Let_def
        read_arc_str_at [OF d] read_bytes_at [OF d2] str_field_def will_field_def del: no_Suc)
qed

lemma parse_username_at:
  assumes "drop c body = str_opt_field (con_username conn) @ post" and "wf_connect conn"
  shows "parse_username body (connect_flags conn) c =
    Ok (con_username conn, c + length (str_opt_field (con_username conn)))"
proof (cases "con_username conn")
  case None
  then show ?thesis by (simp add: parse_username_def connect_flags_read str_opt_field_def)
next
  case (Some u)
  with assms have d: "drop c body = write_arc_str [] u @ post" and "str_field u"
    by (simp_all add: str_opt_field_def wf_connect_def)
  with Some show ?thesis
    by (simp add: parse_username_def connect_flags_read read_arc_str_at [OF d] str_field_def
        str_opt_field_def)
qed

lemma parse_password_at:
  assumes "drop c body = bytes_opt_field (con_password conn) @ post" and "wf_connect conn"
  shows "parse_password body (connect_flags conn) c =
    Ok (con_password conn, c + length (bytes_opt_field (con_password conn)))"
proof (cases "con_password conn")
  case None
  then show ?thesis by (simp add: parse_password_def connect_flags_read bytes_opt_field_def)
next
  case (Some p)
  with assms have d: "drop c body = write_bytes [] p @ post" and "length p < 65536"
    by (simp_all add: bytes_opt_field_def wf_connect_def)
  with Some show ?thesis
    by (simp add: parse_password_def connect_flags_read read_bytes_at [OF d] bytes_opt_field_def)
qed

lemma parse_connect_body:
  assumes "wf_connect conn"
  shows "parse_connect (connect_body conn) = Ok (Connect conn)"
proof -
  let ?b = "connect_body conn"
  let ?w = "will_field (con_will conn)" and ?u = "str_opt_field (con_username conn)"
  let ?p = "bytes_opt_field (con_password conn)" and ?n = "length (con_client_id conn)"
  note fields = connect_body_fields [of conn]
  have d1: "drop 10 ?b = write_arc_str [] (con_client_id conn) @ ?w @ ?u @ ?p"
    by (simp add: fields u16_to_be_bytes_def)
  have d2: "drop (12 + ?n) ?b = ?w @ ?u @ ?p"
    using drop_advance [OF d1] by (simp add: add.assoc)
  have d3: "drop (12 + ?n + length ?w) ?b = ?u @ ?p"
    by (rule drop_advance [OF d2])
  have d4: "drop (12 + ?n + length ?w + length ?u) ?b = ?p @ []"
    using drop_advance [OF d3] by simp
  have s: "is_str (con_client_id conn)" "?n < 65536"
    using assms by (simp_all add: wf_connect_def str_field_def)
  have cid: "read_arc_str ?b 10 = Ok (con_client_id conn, 12 + ?n)"
    using read_arc_str_at [OF d1 s] by simp
  have len: "10 \<le> length ?b" by (simp add: fields u16_to_be_bytes_def)
  have mqtt: "as_bytes ''MQTT'' = [77, 81, 84, 84]" by (simp add: byte_of_char_def)
  have ix: "index_at ?b i = Ok ([0, 4, 77, 81, 84, 84, 4, connect_flags conn,
      ucast (drop_bit 8 (con_keep_alive conn)), ucast (con_keep_alive conn)] ! i)" if "i < 10" for i
    using that len by (simp add: fields u16_to_be_bytes_def nth_append nth_Cons split: nat.split)
  have name: "slice_of ?b 2 6 = Ok (as_bytes ''MQTT'')"
    unfolding mqtt using len by (simp add: fields)
  have "unat (u16_from_be_bytes 0 4) = 4" by (simp add: u16_from_be_bytes_def)
  with len show ?thesis
    unfolding parse_connect_def
    by (simp add: ix name cid parse_will_at [OF d2 assms] parse_username_at [OF d3 assms]
        parse_password_at [OF d4 assms] connect_flags_read del: index_at_Ok slice_of_Ok as_bytes_simps)
qed

lemma publish_first_read:
  fixes p :: publish_packet
  defines "first \<equiv> type_nibble TPublish OR pack_publish_flags p"
  shows "drop_bit 4 first = packet_type_as_u8 TPublish"
    and "fixed_header_from_bits (first AND 0x0F) = Some (pack_publish_flags p)"
    and "flags_contain (pack_publish_flags p) FH_Dup = pub_dup p"
    and "flags_contain (pack_publish_flags p) FH_Retain = pub_retain p"
    and "drop_bit 1 (pack_publish_flags p AND FH_QoS) = qos_as_u8 (pub_qos p)"
proof -
  have q: "pub_qos p \<in> {AtMostOnce, AtLeastOnce, ExactlyOnce}" by (auto intro: qos.exhaust)
  note defs = first_def type_nibble_def pack_publish_flags_def Let_def flags_contain_def mask_defs
    fixed_header_from_bits_def
  show "drop_bit 4 first = packet_type_as_u8 TPublish"
    "fixed_header_from_bits (first AND 0x0F) = Some (pack_publish_flags p)"
    "flags_contain (pack_publish_flags p) FH_Dup = pub_dup p"
    "flags_contain (pack_publish_flags p) FH_Retain = pub_retain p"
    "drop_bit 1 (pack_publish_flags p AND FH_QoS) = qos_as_u8 (pub_qos p)"
    using q by (auto simp: defs split: if_splits)
qed

lemma validate_publish_wf:
  assumes "wf_publish p"
  shows "validate_publish_for_encode p = Ok (pub_packet_id p)"
  using assms by (auto simp: validate_publish_for_encode_def wf_publish_def str_field_def
      split: if_splits)

lemma parse_publish_body:
  assumes "wf_publish p"
  shows "parse_publish (type_nibble TPublish OR pack_publish_flags p)
    (publish_header p (pub_packet_id p) @ pub_payload p) = Ok (Publish p)"
proof -
  let ?i = "pub_packet_id p"
  let ?ib = "case ?i of None \<Rightarrow> [] | Some i \<Rightarrow> u16_to_be_bytes i"
  let ?b = "publish_header p ?i @ pub_payload p"
  let ?n = "length (pub_topic p)"
  have b: "?b = write_arc_str [] (pub_topic p) @ ?ib @ pub_payload p"
    by (simp add: publish_header_def write_arc_str_def Let_def)
  have s: "is_str (pub_topic p)" "?n < 65536"
    using assms by (simp_all add: wf_publish_def str_field_def)
  have d0: "drop 0 ?b = write_arc_str [] (pub_topic p) @ ?ib @ pub_payload p" using b by simp
  have t: "read_arc_str ?b 0 = Ok (pub_topic p, 2 + ?n)"
    using read_arc_str_at [OF d0 s] by simp
  have d1: "drop (2 + ?n) ?b = ?ib @ pub_payload p"
    using drop_advance [OF d0] by simp
  have i: "(if pub_qos p \<noteq> AtMostOnce then obind (read_u16 ?b (2 + ?n)) (\<lambda>(i, c). Ok (Some i, c))
      else Ok (None, 2 + ?n)) = (Ok (?i, 2 + ?n + length ?ib) :: (packet_id option \<times> usize) result)"
  proof (cases ?i)
    case None
    with assms show ?thesis by (auto simp: wf_publish_def)
  next
    case (Some j)
    then have "drop (2 + ?n) ?b = u16_to_be_bytes j @ pub_payload p" using d1 by simp
    from read_u16_at [OF this] Some assms show ?thesis by (auto simp: wf_publish_def)
  qed
  have d2: "drop (2 + ?n + length ?ib) ?b = pub_payload p" by (rule drop_advance [OF d1])
  have l: "length ?b = 2 + ?n + length ?ib + length (pub_payload p)" by (simp add: b)
  have sl: "slice_of ?b (2 + ?n + length ?ib) (length ?b) = Ok (pub_payload p)"
    using d2 l by simp
  show ?thesis
    unfolding parse_publish_def publish_first_read ok_or.simps obind.simps Let_def qos_from_as t i sl
      prod.case
    using l by simp
qed

lemma parse_subscriptions_at:
  "drop c body = write_subscriptions [] subs \<Longrightarrow> list_all (\<lambda>t. str_field (ts_topic t)) subs \<Longrightarrow>
   parse_subscriptions body c acc = Ok (acc @ subs)"
proof (induction subs arbitrary: c acc)
  case Nil
  then show ?case by (simp add: parse_subscriptions.simps)
next
  case (Cons sub subs)
  have d: "drop c body = write_arc_str [] (ts_topic sub) @
      [qos_as_u8 (ts_qos sub)] @ write_subscriptions [] subs"
    using Cons.prems(1) write_subscriptions_append [of "write_arc_str [] (ts_topic sub) @ [qos_as_u8 (ts_qos sub)]" subs]
    by simp
  let ?c = "c + 2 + length (ts_topic sub)"
  have s: "is_str (ts_topic sub)" "length (ts_topic sub) < 65536"
    using Cons.prems(2) by (simp_all add: str_field_def)
  have d1: "drop ?c body = [qos_as_u8 (ts_qos sub)] @ write_subscriptions [] subs"
    using drop_advance [OF d] by (simp add: add.assoc)
  then have q: "?c < length body" "body ! ?c = qos_as_u8 (ts_qos sub)"
    using drop_eq_Cons_nth [of ?c body] by auto
  have d2: "drop (?c + 1) body = write_subscriptions [] subs"
    using drop_advance [OF d1] by simp
  have "c < length body" using q(1) by simp
  with q Cons.IH [OF d2] Cons.prems(2) show ?case
    by (simp add: parse_subscriptions.simps [of body c] read_arc_str_at [OF d s] del: no_Suc)
qed

lemma parse_topics_at:
  "drop c body = write_topics [] topics \<Longrightarrow> list_all str_field topics \<Longrightarrow>
   parse_topics body c acc = Ok (acc @ topics)"
proof (induction topics arbitrary: c acc)
  case Nil
  then show ?case by (simp add: parse_topics.simps)
next
  case (Cons t topics)
  have d: "drop c body = write_arc_str [] t @ write_topics [] topics"
    using Cons.prems(1) write_topics_append [of "write_arc_str [] t" topics] by simp
  let ?c = "c + 2 + length t"
  have s: "is_str t" "length t < 65536" using Cons.prems(2) by (simp_all add: str_field_def)
  have d1: "drop ?c body = write_topics [] topics"
    using drop_advance [OF d] by (simp add: add.assoc)
  have "c < length body"
    using drop_eq_append_length [OF d] by (simp add: write_arc_str_def u16_to_be_bytes_def)
  with Cons.IH [OF d1] Cons.prems(2) show ?case
    by (simp add: parse_topics.simps [of body c] read_arc_str_at [OF d s] del: no_Suc)
qed

lemma collect_suback_codes_map: "collect_suback_codes (map suback_as_u8 cs) = Ok cs"
  by (induction cs) simp_all

lemma u16_prefix_read:
  "read_u16 (u16_to_be_bytes w @ post) 0 = Ok (w, 2)" "drop 2 (u16_to_be_bytes w @ post) = post"
  using read_u16_at [of 0 "u16_to_be_bytes w @ post" w post] by simp_all

lemma parse_subscribe_body:
  assumes "wf_subscribe s"
  shows "parse_subscribe (subscribe_body s) = Ok (Subscribe s)"
proof -
  have b: "subscribe_body s = u16_to_be_bytes (sub_packet_id s) @ write_subscriptions [] (sub_subscriptions s)"
    unfolding subscribe_body_def by (rule write_subscriptions_append)
  obtain t ts where "sub_subscriptions s = t # ts"
    using assms by (cases "sub_subscriptions s") (auto simp: wf_subscribe_def)
  then have "5 \<le> length (subscribe_body s)"
    using write_subscriptions_append [of "write_arc_str [] (ts_topic t) @ [qos_as_u8 (ts_qos t)]" ts]
    by (simp add: b)
  moreover have "drop 2 (subscribe_body s) = write_subscriptions [] (sub_subscriptions s)"
    unfolding b by (rule u16_prefix_read)
  ultimately show ?thesis
    using assms parse_subscriptions_at [of 2 "subscribe_body s" "sub_subscriptions s" "[]"]
    by (simp add: parse_subscribe_def wf_subscribe_def) (simp add: b u16_prefix_read)
qed

lemma parse_unsubscribe_body:
  assumes "wf_unsubscribe u"
  shows "parse_unsubscribe (unsubscribe_body u) = Ok (Unsubscribe u)"
proof -
  have b: "unsubscribe_body u = u16_to_be_bytes (unsub_packet_id u) @ write_topics [] (unsub_topics u)"
    unfolding unsubscribe_body_def by (rule write_topics_append)
  obtain t ts where "unsub_topics u = t # ts"
    using assms by (cases "unsub_topics u") (auto simp: wf_unsubscribe_def)
  then have "4 \<le> length (unsubscribe_body u)"
    using write_topics_append [of "write_arc_str [] t" ts] by (simp add: b)
  moreover have "drop 2 (unsubscribe_body u) = write_topics [] (unsub_topics u)"
    unfolding b by (rule u16_prefix_read)
  ultimately show ?thesis
    using assms parse_topics_at [of 2 "unsubscribe_body u" "unsub_topics u" "[]"]
    by (simp add: parse_unsubscribe_def wf_unsubscribe_def) (simp add: b u16_prefix_read)
qed

lemma parse_suback_body:
  assumes "wf_suback s"
  shows "parse_suback (suback_body s) = Ok (Suback s)"
proof -
  have "3 \<le> length (suback_body s)"
    using assms by (cases "suback_return_codes s") (auto simp: suback_body_def wf_suback_def)
  then show ?thesis
    by (simp add: parse_suback_def) (simp add: suback_body_def u16_to_be_bytes_def collect_suback_codes_map)
qed

section \<open>Frames\<close>

lemma max_size_pow: "n \<le> MQTT_SPEC_MAX_PACKET_SIZE \<longleftrightarrow> n < 128 ^ (4 - 0)"
  by (auto simp: MQTT_SPEC_MAX_PACKET_SIZE_def)

lemma decode_slice_encode:
  "n \<le> MQTT_SPEC_MAX_PACKET_SIZE \<Longrightarrow>
   decode_remaining_length_from_slice (encode_remaining_length n @ rest) =
     Ok (Some (n, length (encode_remaining_length n)))"
  unfolding decode_remaining_length_from_slice_def max_size_pow
  by (subst drl_loop_encode) simp_all

lemma decode_slice_bounds:
  assumes "decode_remaining_length_from_slice data = Ok (Some (n, k))"
  shows "n \<le> MQTT_SPEC_MAX_PACKET_SIZE \<and> 1 \<le> k \<and> k \<le> 4 \<and> k \<le> length data"
  using drl_loop_bounds [of 0 0 1 data n k] assms
  by (simp add: decode_remaining_length_from_slice_def MQTT_SPEC_MAX_PACKET_SIZE_def)

lemma encoded_length_bounds:
  "n \<le> MQTT_SPEC_MAX_PACKET_SIZE \<Longrightarrow>
   1 \<le> length (encode_remaining_length n) \<and> length (encode_remaining_length n) \<le> 4"
  unfolding max_size_pow by (rule length_encode_remaining_length) simp_all

lemma decode_frame:
  assumes "packet_type_try_from (drop_bit 4 first) = Some t"
    and "length body \<le> MQTT_SPEC_MAX_PACKET_SIZE" and "length body \<le> max_size"
  shows "decode_packet_from_bytes (frame first body @ rest) max_size =
    (obind (parse_packet first t (length body) body) (\<lambda>p. Ok (Some p)), rest)"
proof -
  let ?rl = "encode_remaining_length (length body)"
  have "1 \<le> length ?rl" using encoded_length_bounds [OF assms(2)] by simp
  moreover have "length (frame first body @ rest) = 1 + length ?rl + length body + length rest"
    by (simp add: frame_def)
  ultimately have "\<not> length (frame first body @ rest) < 2" by linarith
  moreover have "decode_remaining_length_from_slice (drop 1 (frame first body @ rest)) =
      Ok (Some (length body, length ?rl))"
    using decode_slice_encode [OF assms(2), of "body @ rest"] by (simp add: frame_def)
  ultimately show ?thesis
    using assms(1,3) by (simp add: decode_packet_from_bytes_def Let_def frame_def)
qed

lemma drl_loop_prefix:
  "v < 128 ^ (4 - i) \<Longrightarrow> i < 4 \<Longrightarrow> k < length (encode_remaining_length v) \<Longrightarrow>
   drl_loop i res mul (take k (encode_remaining_length v)) = Ok None"
proof (induction v arbitrary: i res mul k rule: encode_remaining_length.induct)
  case (1 v)
  have m: "v mod 128 < 128" by simp
  show ?case
  proof (cases "v div 128 = 0 \<or> k = 0")
    case True
    then show ?thesis
      using "1.prems"(3) by (auto simp: encode_remaining_length.simps [of v])
  next
    case False
    then have big: "v div 128 \<noteq> 0" by simp
    with "1.prems"(1,2) have i: "i < 3" by (cases "i = 3") (auto simp: div_eq_0_iff)
    with "1.prems" have lt: "v div 128 < 128 ^ (4 - (i + 1))"
      using pow128_step [of i] by (simp only: less_mult_imp_div_less less_imp_le)
    obtain j where j: "k = Suc j" using False by (cases k) auto
    with "1.prems"(3) big have "j < length (encode_remaining_length (v div 128))"
      by (simp add: encode_remaining_length.simps [of v] Let_def)
    with "1.IH" [OF refl refl refl big lt] i
    have "drl_loop (Suc i) r m (take j (encode_remaining_length (v div 128))) = Ok None" for r m
      by simp
    with i big j show ?thesis
      by (simp add: encode_remaining_length.simps [of v] low_byte_simps [OF m] Let_def)
  qed
qed

lemma decode_frame_prefix:
  assumes "packet_type_try_from (drop_bit 4 first) = Some t"
    and "length body \<le> MQTT_SPEC_MAX_PACKET_SIZE" and "length body \<le> max_size"
    and "n < length (frame first body)"
  shows "decode_packet_from_bytes (take n (frame first body)) max_size =
    (Ok None, take n (frame first body))"
proof -
  let ?rl = "encode_remaining_length (length body)"
  let ?buf = "take n (frame first body)"
  show ?thesis
  proof (cases "n < 2")
    case True
    then have "length ?buf < 2" by simp
    then show ?thesis unfolding decode_packet_from_bytes_def by (simp only: if_True)
  next
    case False
    then obtain k where k: "n = Suc k" "1 \<le> k" by (cases n) auto
    have buf: "?buf ! 0 = first" "drop 1 ?buf = take k (?rl @ body)"
      using k by (simp_all add: frame_def)
    have len: "length ?buf = n" using assms(4) by simp
    show ?thesis
    proof (cases "k < length ?rl")
      case True
      then have "decode_remaining_length_from_slice (drop 1 ?buf) = Ok None"
        using drl_loop_prefix [of "length body" 0 k 0 1] assms(2)
        by (simp only: buf max_size_pow decode_remaining_length_from_slice_def) simp
      with False len buf(1) assms(1) show ?thesis
        by (simp add: decode_packet_from_bytes_def Let_def)
    next
      case False
      then have "drop 1 ?buf = ?rl @ take (k - length ?rl) body" using buf(2) by simp
      then have "decode_remaining_length_from_slice (drop 1 ?buf) =
          Ok (Some (length body, length ?rl))"
        using decode_slice_encode [OF assms(2)] by simp
      moreover have "length ?buf < 1 + length ?rl + length body"
        using assms(4) len by (simp add: frame_def)
      ultimately show ?thesis
        using \<open>\<not> n < 2\<close> len buf(1) assms(1,3)
        by (simp add: decode_packet_from_bytes_def Let_def)
    qed
  qed
qed

text \<open>Every packet is one frame; \<open>frame_of\<close> names its first byte and its body.\<close>

fun frame_of :: "packet \<Rightarrow> u8 \<times> packet_type \<times> u8 list" where
  "frame_of (Connect c) = (0x10, TConnect, connect_body c)"
| "frame_of (Connack a) = (0x20, TConnack,
     [(if ack_session_present a then 1 else 0), connack_as_u8 (ack_return_code a)])"
| "frame_of (Publish p) = (type_nibble TPublish OR pack_publish_flags p, TPublish,
     publish_header p (pub_packet_id p) @ pub_payload p)"
| "frame_of (Puback i) = (0x40, TPuback, u16_to_be_bytes i)"
| "frame_of (Pubrec i) = (0x50, TPubrec, u16_to_be_bytes i)"
| "frame_of (Pubrel i) = (0x62, TPubrel, u16_to_be_bytes i)"
| "frame_of (Pubcomp i) = (0x70, TPubcomp, u16_to_be_bytes i)"
| "frame_of (Subscribe s) = (0x82, TSubscribe, subscribe_body s)"
| "frame_of (Suback s) = (0x90, TSuback, suback_body s)"
| "frame_of (Unsubscribe u) = (0xA2, TUnsubscribe, unsubscribe_body u)"
| "frame_of (Unsuback i) = (0xB0, TUnsuback, u16_to_be_bytes i)"
| "frame_of Pingreq = (0xC0, TPingreq, [])"
| "frame_of Pingresp = (0xD0, TPingresp, [])"
| "frame_of Disconnect = (0xE0, TDisconnect, [])"

definition wire_length :: "packet \<Rightarrow> usize" where
  "wire_length p = length (snd (snd (frame_of p)))"

lemma frame_of_type: "frame_of p = (first, t, body) \<Longrightarrow> packet_type_try_from (drop_bit 4 first) = Some t"
proof (cases p)
  case (Publish q)
  moreover assume "frame_of p = (first, t, body)"
  ultimately have "drop_bit 4 first = packet_type_as_u8 TPublish" "t = TPublish"
    using publish_first_read(1) [of q] by auto
  then show ?thesis by (simp only: packet_type_try_from_as)
qed (auto simp: packet_type_try_from_def)

lemma wf_wire_length: "wf_packet p \<Longrightarrow> wire_length p \<le> MQTT_SPEC_MAX_PACKET_SIZE"
proof (cases p)
  case (Connect c)
  have "length (will_field (con_will c)) \<le> 4 + 65535 + 65535 \<and>
      length (str_opt_field (con_username c)) \<le> 2 + 65535 \<and>
      length (bytes_opt_field (con_password c)) \<le> 2 + 65535" if "wf_connect c"
    using that by (auto simp: wf_connect_def wf_will_def str_field_def will_field_def
        str_opt_field_def bytes_opt_field_def split: option.splits)
  moreover assume "wf_packet p"
  ultimately show ?thesis using Connect
    by (auto simp: wire_length_def connect_body_fields MQTT_SPEC_MAX_PACKET_SIZE_def wf_connect_def
        str_field_def)
next
  case (Publish q)
  moreover assume "wf_packet p"
  ultimately show ?thesis
    by (auto simp: wire_length_def publish_header_def wf_publish_def split: option.splits if_splits)
qed (auto simp: wire_length_def wf_subscribe_def wf_suback_def wf_unsubscribe_def
    MQTT_SPEC_MAX_PACKET_SIZE_def)

lemma encode_packet_frame:
  assumes "wf_packet p" and "frame_of p = (first, t, body)"
  shows "encode_packet p = Ok (frame first body)"
proof (cases p)
  case (Publish q)
  then have "\<not> MQTT_SPEC_MAX_PACKET_SIZE < length (publish_header q (pub_packet_id q) @ pub_payload q)"
    using wf_wire_length [OF assms(1)] by (simp add: wire_length_def)
  with Publish assms show ?thesis
    by (auto simp: encode_publish_def validate_publish_wf Let_def)
qed (use assms in \<open>auto simp: encode_connect_def encode_subscribe_def encode_suback_def
      encode_unsubscribe_def encode_connack_frame ack_bytes_frame type_nibble_def
      frame_def encode_remaining_length_small\<close>)

lemma parse_frame_of:
  assumes "wf_packet p" and "frame_of p = (first, t, body)"
  shows "parse_packet first t (length body) body = Ok p"
proof (cases p)
  case (Connack a)
  with assms show ?thesis by (cases a) (auto simp: parse_connack_def)
qed (use assms in \<open>auto simp: parse_connect_body parse_publish_body parse_subscribe_body
      parse_suback_body parse_unsubscribe_body parse_ack_packet_def parse_unsuback_def
      require_empty_body_def u16_to_be_bytes_def\<close>)

section \<open>The two framings agree\<close>

text \<open>What an asynchronous read reports when the buffered decoder has reached its verdict.\<close>

definition reader_verdict :: "reader \<Rightarrow> packet option result \<times> u8 list \<Rightarrow> (packet \<times> reader) result" where
  "reader_verdict r v = obind (fst v) (\<lambda>res.
     case res of
       Some p \<Rightarrow> Ok (p, r\<lparr>rd_bytes := snd v\<rparr>)
     | None \<Rightarrow> (case rd_end r of Eof \<Rightarrow> Err (Io IoUnexpectedEof) | Stalled \<Rightarrow> Pending))"

lemma read_remaining_length_slice:
  "read_remaining_length r = reader_of_slice 0 r (decode_remaining_length_from_slice (rd_bytes r))"
  by (simp add: read_remaining_length_def decode_remaining_length_from_slice_def rrl_loop_slice)

lemma drop_Suc_split: "drop (1 + k + n) (b # data) = drop n (drop k data)"
  by (simp add: add.commute)

lemma read_packet_decode:
  assumes "length (rd_bytes r) \<noteq> 1"
  shows "read_packet r max_size = reader_verdict r (decode_packet_from_bytes (rd_bytes r) max_size)"
proof (cases "rd_bytes r")
  case Nil
  then show ?thesis
    by (simp add: read_packet_def read_exact_1 reader_verdict_def decode_packet_from_bytes_def
        split: stream_end.split)
next
  case (Cons b data)
  with assms have l: "\<not> length (rd_bytes r) < 2" by (cases data) auto
  let ?t = "packet_type_try_from (drop_bit 4 b)"
  let ?r = "r\<lparr>rd_bytes := data\<rparr>"
  have rp: "read_packet r max_size = obind (ok_or ?t (Codec (InvalidPacketType (drop_bit 4 b)))) (\<lambda>t.
      obind (reader_of_slice 0 ?r (decode_remaining_length_from_slice data)) (\<lambda>(n, r').
      if n > max_size then Err (Protocol (PacketTooLarge n max_size))
      else obind (read_exact n r') (\<lambda>(body, r''). obind (parse_packet b t n body) (\<lambda>p. Ok (p, r'')))))"
    using Cons by (simp add: read_packet_def read_exact_1 read_remaining_length_slice Let_def)
  show ?thesis
  proof (cases ?t)
    case None
    with Cons l show ?thesis
      by (simp add: rp decode_packet_from_bytes_def reader_verdict_def Let_def)
  next
    case (Some t)
    show ?thesis
    proof (cases "decode_remaining_length_from_slice data")
      case (Ok x)
      show ?thesis
      proof (cases x)
        case None
        with Ok Some Cons l show ?thesis
          by (simp add: rp decode_packet_from_bytes_def reader_verdict_def reader_of_slice_def Let_def
              split: stream_end.split)
      next
        case x: (Some nk)
        then obtain n k where nk: "x = Some (n, k)" by (cases nk) auto
        have k: "k \<le> length data"
          using decode_slice_bounds [of data n k] Ok nk by simp
        show ?thesis
        proof (cases "n > max_size \<or> length data < k + n")
          case True
          with Ok nk Some Cons l k show ?thesis
            by (auto simp: rp decode_packet_from_bytes_def reader_verdict_def reader_of_slice_def
                Let_def read_exact_def split: stream_end.split)
        next
          case False
          define body where "body = take n (drop k data)"
          have "drop (1 + k) (take (1 + k + n) (b # data)) = body"
            by (simp add: body_def drop_take)
          then have "decode_packet_from_bytes (rd_bytes r) max_size =
              (obind (parse_packet b t n body) (\<lambda>p. Ok (Some p)), drop n (drop k data))"
            using False Ok nk Some Cons l
            by (simp add: decode_packet_from_bytes_def Let_def add.commute)
          moreover have "read_packet r max_size =
              obind (parse_packet b t n body) (\<lambda>p. Ok (p, r\<lparr>rd_bytes := drop n (drop k data)\<rparr>))"
          proof -
            have "n \<le> length data - k" using False by arith
            with False Ok nk Some show ?thesis
              by (simp add: rp reader_of_slice_def read_exact_def body_def)
          qed
          ultimately show ?thesis
            by (cases "parse_packet b t n body") (simp_all add: reader_verdict_def)
        qed
      qed
    next
      case (Err e)
      with Some Cons l show ?thesis
        by (simp add: rp decode_packet_from_bytes_def reader_verdict_def reader_of_slice_def Let_def)
    qed (use drl_loop_returns [of 0 0 1 data] in
        \<open>simp_all add: decode_remaining_length_from_slice_def\<close>)
  qed
qed

lemma decode_returns: "returns (fst (decode_packet_from_bytes buf max_size))"
proof -
  have "returns (decode_remaining_length_from_slice (drop 1 buf))"
    by (simp add: decode_remaining_length_from_slice_def drl_loop_returns)
  moreover have "returns (parse_packet b t n body)" if "length body = n" for b t n body
    using that by auto
  ultimately show ?thesis
    by (auto simp: decode_packet_from_bytes_def Let_def intro!: returns_obind
        split: option.split outcome.splits)
qed

lemma read_packet_never_panics: "read_packet r max_size \<noteq> Panic"
proof (cases "length (rd_bytes r) = 1")
  case True
  then obtain b where "rd_bytes r = [b]" by (metis One_nat_def length_0_conv length_Suc_conv)
  then show ?thesis
    by (cases "packet_type_try_from (drop_bit 4 b)"; cases "rd_end r")
      (simp_all add: read_packet_def read_exact_1 read_remaining_length_slice Let_def
        decode_remaining_length_from_slice_def drl_loop.simps reader_of_slice_def)
next
  case False
  from decode_returns [of "rd_bytes r" max_size] show ?thesis
    by (cases "fst (decode_packet_from_bytes (rd_bytes r) max_size)")
      (auto simp: read_packet_decode [OF False] reader_verdict_def split: option.splits stream_end.splits)
qed

text \<open>An encoded packet is read off a stream whole, whatever follows it, and not before it is whole.\<close>

lemma encoded_frame:
  assumes "wf_packet p" and "wire_length p \<le> max_size" and "encode_packet p = Ok bs"
  obtains first t body where "bs = frame first body" "packet_type_try_from (drop_bit 4 first) = Some t"
    "length body \<le> MQTT_SPEC_MAX_PACKET_SIZE" "length body \<le> max_size"
    "parse_packet first t (length body) body = Ok p"
proof -
  obtain first t body where f: "frame_of p = (first, t, body)" by (rule prod_cases3)
  then have "length body \<le> MQTT_SPEC_MAX_PACKET_SIZE" "length body \<le> max_size"
    using assms(1,2) wf_wire_length [of p] by (simp_all add: wire_length_def)
  then show ?thesis
    using that encode_packet_frame [OF assms(1) f] assms(3) frame_of_type [OF f] parse_frame_of [OF assms(1) f]
    by simp
qed

lemma read_packet_encoded:
  assumes "wf_packet p" and "wire_length p \<le> max_size" and "encode_packet p = Ok bs"
  shows "read_packet \<lparr>rd_bytes = bs @ rest, rd_end = e\<rparr> max_size = Ok (p, \<lparr>rd_bytes = rest, rd_end = e\<rparr>)"
proof -
  obtain first t body where f: "bs = frame first body" "packet_type_try_from (drop_bit 4 first) = Some t"
    "length body \<le> MQTT_SPEC_MAX_PACKET_SIZE" "length body \<le> max_size"
    "parse_packet first t (length body) body = Ok p"
    by (rule encoded_frame [OF assms])
  have "length (bs @ rest) \<noteq> 1"
    using encoded_length_bounds [OF f(3)] by (auto simp: f(1) frame_def)
  with f decode_frame [OF f(2-4), of rest] show ?thesis
    by (simp add: read_packet_decode reader_verdict_def)
qed

lemma read_packet_partial:
  assumes "wf_packet p" and "wire_length p \<le> max_size" and "encode_packet p = Ok bs" and "n < length bs"
  shows "read_packet \<lparr>rd_bytes = take n bs, rd_end = Stalled\<rparr> max_size = Pending"
proof -
  obtain first t body where f: "bs = frame first body" "packet_type_try_from (drop_bit 4 first) = Some t"
    "length body \<le> MQTT_SPEC_MAX_PACKET_SIZE" "length body \<le> max_size"
    by (rule encoded_frame [OF assms(1-3)])
  show ?thesis
  proof (cases "n = 1")
    case True
    then show ?thesis using f(2)
      by (simp add: f(1) frame_def read_packet_def read_exact_1 read_remaining_length_slice Let_def
          decode_remaining_length_from_slice_def drl_loop.simps reader_of_slice_def)
  next
    case False
    with assms(4) have "length (take n bs) \<noteq> 1" by simp
    with f(1) decode_frame_prefix [OF f(2-4), of n] assms(4) show ?thesis
      by (simp add: read_packet_decode reader_verdict_def)
  qed
qed

lemma decode_SomeD:
  assumes "decode_packet_from_bytes buf max_size = (Ok (Some p), rest)"
  obtains first t k body where "packet_type_try_from (drop_bit 4 first) = Some t"
    and "parse_packet first t (length body) body = Ok p" and "length body \<le> max_size"
    and "1 \<le> k" "k \<le> 4" and "length buf = 1 + k + length body + length rest"
    and "buf = first # take k (drop 1 buf) @ body @ rest"
    and "decode_remaining_length_from_slice (drop 1 buf) = Ok (Some (length body, k))"
proof -
  from assms have l: "2 \<le> length buf"
    by (auto simp: decode_packet_from_bytes_def split: if_splits)
  with assms obtain t where t: "packet_type_try_from (drop_bit 4 (buf ! 0)) = Some t"
    by (auto simp: decode_packet_from_bytes_def Let_def split: option.splits)
  with assms l obtain n k where nk: "decode_remaining_length_from_slice (drop 1 buf) = Ok (Some (n, k))"
    by (auto simp: decode_packet_from_bytes_def Let_def split: outcome.splits option.splits)
  with assms l t have n: "n \<le> max_size" "1 + k + n \<le> length buf"
    and p: "parse_packet (buf ! 0) t n (drop (1 + k) (take (1 + k + n) buf)) = Ok p"
    and rest: "rest = drop (1 + k + n) buf"
    by (auto simp: decode_packet_from_bytes_def Let_def outcome_simps split: if_splits)
  let ?body = "drop (1 + k) (take (1 + k + n) buf)"
  have lb: "length ?body = n" using n(2) by simp
  have "buf = take 1 buf @ take k (drop 1 buf) @ take n (drop k (drop 1 buf)) @ drop n (drop k (drop 1 buf))"
    by (simp only: append_take_drop_id)
  moreover have "take 1 buf = [buf ! 0]" using l by (cases buf) auto
  ultimately have "buf = buf ! 0 # take k (drop 1 buf) @ ?body @ rest"
    unfolding rest by (simp add: drop_take add.commute)
  then have buf: "buf = buf ! 0 # take k (drop 1 buf) @ ?body @ rest" .
  have "length buf = 1 + k + length ?body + length rest"
    using n(2) by (simp add: rest)
  then show ?thesis
    using that [OF t, of ?body k] p n decode_slice_bounds [OF nk] nk buf unfolding lb by blast
qed

section \<open>What a decoded packet satisfies\<close>

text \<open>Every string of a decoded packet is a Rust \<^verbatim>\<open>str\<close> that its two-byte length field can hold.\<close>

fun decoded_ok :: "packet \<Rightarrow> bool" where
  "decoded_ok (Connect c) = wf_connect c"
| "decoded_ok (Publish p) =
     (str_field (pub_topic p) \<and> (pub_qos p = AtMostOnce \<longleftrightarrow> pub_packet_id p = None))"
| "decoded_ok (Subscribe s) = list_all (\<lambda>t. str_field (ts_topic t)) (sub_subscriptions s)"
| "decoded_ok (Unsubscribe u) = list_all str_field (unsub_topics u)"
| "decoded_ok _ = True"

lemma parse_connect_ok: "parse_connect body = Ok p \<Longrightarrow> decoded_ok p"
  by (auto simp: parse_connect_def parse_will_def parse_username_def parse_password_def Let_def
      outcome_simps wf_connect_def wf_will_def str_field_def split: if_splits
      dest!: read_arc_str_OkD read_bytes_OkD)

lemma parse_publish_ok: "parse_publish first body = Ok p \<Longrightarrow> decoded_ok p"
  by (auto simp: parse_publish_def Let_def outcome_simps str_field_def split: if_splits
      dest!: read_arc_str_OkD)

lemma parse_subscriptions_ok:
  "parse_subscriptions body c acc = Ok subs \<Longrightarrow> list_all (\<lambda>t. str_field (ts_topic t)) acc \<Longrightarrow>
   list_all (\<lambda>t. str_field (ts_topic t)) subs"
proof (induction body c acc rule: parse_subscriptions.induct)
  case (1 body c acc)
  show ?case
  proof (cases "c < length body")
    case True
    with "1.prems"(1) obtain t c' q where r: "read_arc_str body c = Ok (t, c')"
      and c': "c' < length body" and q: "qos_from_u8 (body ! c') = Some q"
      and rest: "parse_subscriptions body (c' + 1) (acc @ [\<lparr>ts_topic = t, ts_qos = q\<rparr>]) = Ok subs"
      by (auto simp: parse_subscriptions.simps [of body c] outcome_simps split: if_splits)
    have "str_field t" using read_arc_str_OkD [OF r] by (simp add: str_field_def)
    with "1.prems"(2) have "list_all (\<lambda>t. str_field (ts_topic t)) (acc @ [\<lparr>ts_topic = t, ts_qos = q\<rparr>])"
      by simp
    with "1.IH" [OF True r refl _ _ _ rest] c' q show ?thesis by simp
  next
    case False
    with "1.prems" show ?thesis by (simp add: parse_subscriptions.simps [of body c])
  qed
qed

lemma parse_topics_ok:
  "parse_topics body c acc = Ok topics \<Longrightarrow> list_all str_field acc \<Longrightarrow> list_all str_field topics"
proof (induction body c acc rule: parse_topics.induct)
  case (1 body c acc)
  show ?case
  proof (cases "c < length body")
    case True
    with "1.prems"(1) obtain t c' where r: "read_arc_str body c = Ok (t, c')"
      and rest: "parse_topics body c' (acc @ [t]) = Ok topics"
      by (auto simp: parse_topics.simps [of body c] outcome_simps)
    have "str_field t" using read_arc_str_OkD [OF r] by (simp add: str_field_def)
    with "1.IH" [OF True r refl rest] "1.prems"(2) show ?thesis by simp
  next
    case False
    with "1.prems" show ?thesis by (simp add: parse_topics.simps [of body c])
  qed
qed

lemma parse_packet_ok: "parse_packet first t n body = Ok p \<Longrightarrow> decoded_ok p"
proof (cases t)
  case TConnect
  then show "parse_packet first t n body = Ok p \<Longrightarrow> decoded_ok p" by (simp add: parse_connect_ok)
next
  case TPublish
  then show "parse_packet first t n body = Ok p \<Longrightarrow> decoded_ok p" by (simp add: parse_publish_ok)
next
  case TSubscribe
  then show "parse_packet first t n body = Ok p \<Longrightarrow> decoded_ok p"
    by (auto simp: parse_subscribe_def outcome_simps split: if_splits dest: parse_subscriptions_ok)
next
  case TUnsubscribe
  then show "parse_packet first t n body = Ok p \<Longrightarrow> decoded_ok p"
    by (auto simp: parse_unsubscribe_def outcome_simps split: if_splits dest: parse_topics_ok)
qed (auto simp: parse_connack_def parse_ack_packet_def parse_suback_def parse_unsuback_def
      require_empty_body_def Let_def outcome_simps split: if_splits)

lemma nibble_cases:
  assumes "(f :: u8) AND 0x0F = f"
  shows "f \<in> {0, 1, 2, 3, 4, 5, 6, 7, 8, 9, 10, 11, 12, 13, 14, 15}"
proof -
  have "take_bit 4 f = f" using assms by (simp add: take_bit_eq_mask mask_eq_exp_minus_1)
  then have "unat f = take_bit 4 (unat f)" by (metis unsigned_take_bit_eq)
  also have "\<dots> < 2 ^ 4" by (rule take_bit_nat_less_exp)
  finally have "unat f < 16" by simp
  then have "f \<in> word_of_nat ` set [0..<16]"
    by (intro image_eqI [of _ _ "unat f"]) auto
  then show ?thesis by (simp add: upt_rec)
qed

lemma publish_flags_of_first:
  assumes "fixed_header_from_bits (first AND 0x0F) = Some h"
    and "qos_from_u8 (drop_bit 1 (h AND FH_QoS)) = Some q"
    and "pub_dup p = flags_contain h FH_Dup" and "pub_retain p = flags_contain h FH_Retain"
    and "pub_qos p = q"
  shows "pack_publish_flags p = first AND 0x0F"
proof -
  have h: "h = first AND 0x0F"
    using assms(1) by (auto simp: fixed_header_from_bits_def split: if_splits)
  then have "h AND 0x0F = h" by (simp add: and.assoc)
  from nibble_cases [OF this] show ?thesis
    unfolding h [symmetric]
    using assms(2-5)
    by (auto simp: pack_publish_flags_def Let_def flags_contain_def mask_defs qos_from_u8_def
        split: if_splits)
qed

text \<open>A PUBLISH that was parsed is as long as its topic, its payload and, above QoS 0, its id.\<close>

lemma parse_publish_length:
  "parse_publish first body = Ok (Publish p) \<Longrightarrow>
   length (pub_topic p) + length (pub_payload p) + (if pub_qos p = AtMostOnce then 2 else 4) = length body"
  by (auto simp: parse_publish_def Let_def outcome_simps slice_of_def read_u16_def split: if_splits dest!: read_arc_str_OkD)

end
