(* ===== verification/Mqtt_Codec_Properties.thy ===== *)
theory Mqtt_Codec_Properties
  imports Mqtt_Codec
begin

text \<open>
  The contract of the wire codec, stated over the definitions of \<open>Mqtt_Wire\<close>, \<open>Mqtt_Encode\<close>,
  \<open>Mqtt_Decode\<close> and \<open>Mqtt_Codec\<close>, each property with a concrete instance.
\<close>

section \<open>Concrete packets\<close>

definition sample_will :: will_packet where
  "sample_will = \<lparr>wp_topic = ''w'', wp_payload = [98], wp_qos = AtLeastOnce, wp_retain = True\<rparr>"

definition sample_connect :: connect_packet where
  "sample_connect = \<lparr>con_client_id = ''c'', con_clean_session = False, con_keep_alive = 30,
     con_username = Some ''u'', con_password = Some [1], con_will = Some sample_will\<rparr>"

definition sample_publish :: publish_packet where
  "sample_publish = \<lparr>pub_topic = ''a/b'', pub_payload = [120], pub_dup = False,
     pub_qos = AtLeastOnce, pub_retain = False, pub_packet_id = Some 42\<rparr>"

lemma is_str_samples: "is_str ''c''" "is_str ''u''" "is_str ''w''" "is_str ''a/b''"
  by (simp_all add: is_str_def utf8_width_def utf8_tail_ok_def byte_of_char_def)

lemma wf_sample_connect: "wf_packet (Connect sample_connect)"
  by (simp add: wf_connect_def wf_will_def str_field_def sample_connect_def sample_will_def
      is_str_samples)

lemma wf_sample_publish: "wf_packet (Publish sample_publish)"
  by (simp add: wf_publish_def str_field_def sample_publish_def is_str_samples
      MQTT_SPEC_MAX_PACKET_SIZE_def)

lemma wire_length_sample_connect: "wire_length (Connect sample_connect) \<le> 100"
  by (simp add: wire_length_def connect_body_fields sample_connect_def sample_will_def
      will_field_def str_opt_field_def bytes_opt_field_def)

lemma wire_length_sample_publish: "wire_length (Publish sample_publish) \<le> 100"
  by (simp add: wire_length_def sample_publish_def publish_header_def)

section \<open>Remaining length\<close>

text \<open>
  Every length the wire format can express survives encoding and decoding, in one to four bytes,
  whatever follows it in the buffer.
\<close>

theorem remaining_length_round_trip:
  assumes "n \<le> MQTT_SPEC_MAX_PACKET_SIZE"
  shows "decode_remaining_length_from_slice (encode_remaining_length n @ rest) =
      Ok (Some (n, length (encode_remaining_length n)))
    \<and> 1 \<le> length (encode_remaining_length n) \<and> length (encode_remaining_length n) \<le> 4"
  using decode_slice_encode [OF assms] encoded_length_bounds [OF assms] by simp

theorem remaining_length_round_trip_witness:
  "decode_remaining_length_from_slice (encode_remaining_length 321 @ [7]) =
     Ok (Some (321, length (encode_remaining_length 321)))"
  using remaining_length_round_trip [of 321 "[7]"] by (simp add: MQTT_SPEC_MAX_PACKET_SIZE_def)

text \<open>
  A length past the wire format's maximum is encoded with a continuation bit on its fourth byte,
  and the decoder refuses it as malformed rather than reading a wrapped or truncated value.
\<close>

theorem oversized_length_refused:
  assumes "MQTT_SPEC_MAX_PACKET_SIZE < n"
  shows "decode_remaining_length_from_slice (encode_remaining_length n @ rest) =
    Err (Codec MalformedLength)"
  unfolding decode_remaining_length_from_slice_def
  using assms by (intro drl_loop_encode_long) (auto simp: MQTT_SPEC_MAX_PACKET_SIZE_def)

theorem oversized_length_refused_witness:
  "decode_remaining_length_from_slice (encode_remaining_length 268435456 @ []) =
    Err (Codec MalformedLength)"
  by (rule oversized_length_refused) (simp add: MQTT_SPEC_MAX_PACKET_SIZE_def)

text \<open>
  On any bytes, a decoded length is at most the format's maximum and took one to four of the
  bytes that were there.
\<close>

theorem decoded_length_bounded:
  assumes "decode_remaining_length_from_slice data = Ok (Some (n, k))"
  shows "n \<le> MQTT_SPEC_MAX_PACKET_SIZE \<and> 1 \<le> k \<and> k \<le> 4 \<and> k \<le> length data"
  using assms by (rule decode_slice_bounds)

theorem decoded_length_bounded_witness:
  "decode_remaining_length_from_slice [0xFF, 0xFF, 0xFF, 0x7F] = Ok (Some (268435455, 4)) \<and>
   (268435455 :: nat) \<le> MQTT_SPEC_MAX_PACKET_SIZE"
proof -
  have "decode_remaining_length_from_slice [0xFF, 0xFF, 0xFF, 0x7F] = Ok (Some (268435455, 4))"
    by (simp add: decode_remaining_length_from_slice_def)
  with decoded_length_bounded [OF this] show ?thesis by simp
qed

section \<open>Whole packets\<close>

text \<open>
  C9: every packet the wire format can carry (all fourteen kinds) is accepted by the encoder, and the
  buffered decoder takes exactly its bytes off the front of a buffer and returns the same packet.
\<close>

theorem packet_round_trip:
  assumes "wf_packet p" and "wire_length p \<le> max_size"
  shows "\<exists>bs. encode_packet p = Ok bs \<and>
    (\<forall>rest. decode_packet_from_bytes (bs @ rest) max_size = (Ok (Some p), rest))"
proof -
  obtain first t body where f: "frame_of p = (first, t, body)" by (rule prod_cases3)
  have "length body \<le> max_size" "length body \<le> MQTT_SPEC_MAX_PACKET_SIZE"
    using assms wf_wire_length [of p] f by (simp_all add: wire_length_def)
  then have "decode_packet_from_bytes (frame first body @ rest) max_size = (Ok (Some p), rest)" for rest
    using decode_frame [OF frame_of_type [OF f]] parse_frame_of [OF assms(1) f] by simp
  with encode_packet_frame [OF assms(1) f] show ?thesis by blast
qed

theorem packet_round_trip_witness:
  "\<exists>bs. encode_packet (Connect sample_connect) = Ok bs \<and>
    (\<forall>rest. decode_packet_from_bytes (bs @ rest) 100 = (Ok (Some (Connect sample_connect)), rest))"
  by (rule packet_round_trip [OF wf_sample_connect wire_length_sample_connect])

text \<open>
  Incremental decoding. While only part of an encoded packet has arrived the buffered decoder
  asks for more and leaves the buffer untouched.
\<close>

theorem partial_packet_waits:
  assumes "wf_packet p" and "wire_length p \<le> max_size" and "encode_packet p = Ok bs"
    and "n < length bs"
  shows "decode_packet_from_bytes (take n bs) max_size = (Ok None, take n bs)"
proof -
  obtain first t body where f: "frame_of p = (first, t, body)" by (rule prod_cases3)
  have l: "length body \<le> MQTT_SPEC_MAX_PACKET_SIZE" "length body \<le> max_size"
    using assms(1,2) wf_wire_length [of p] f by (simp_all add: wire_length_def)
  have "bs = frame first body" using encode_packet_frame [OF assms(1) f] assms(3) by simp
  then show ?thesis
    using decode_frame_prefix [OF frame_of_type [OF f] l] assms(4) by simp
qed

theorem partial_packet_waits_witness:
  "decode_packet_from_bytes (take 2 (ack_bytes 0x40 7)) 2 = (Ok None, take 2 (ack_bytes 0x40 7))"
  by (rule partial_packet_waits [of "Puback 7"])
    (simp_all add: wire_length_def ack_bytes_def)

text \<open>
  C13: the asynchronous reader and the buffered decoder are the same decoder. On the same bytes they
  return the same packet with the same bytes left, or the same error; where the buffered one asks for
  more, the reader reports the end of the stream or keeps waiting. (With exactly one byte the reader
  already judges the packet type, which the buffered decoder postpones to the second byte.)
\<close>

theorem framings_agree:
  assumes "length (rd_bytes r) \<noteq> 1"
  shows "read_packet r max_size = reader_verdict r (decode_packet_from_bytes (rd_bytes r) max_size)"
  using assms by (rule read_packet_decode)

theorem framings_agree_witness:
  "read_packet \<lparr>rd_bytes = [0xC0, 0x00, 0xD0], rd_end = Stalled\<rparr> 10 =
     reader_verdict \<lparr>rd_bytes = [0xC0, 0x00, 0xD0], rd_end = Stalled\<rparr>
       (decode_packet_from_bytes [0xC0, 0x00, 0xD0] 10)"
  using framings_agree [of "\<lparr>rd_bytes = [0xC0, 0x00, 0xD0], rd_end = Stalled\<rparr>" 10] by simp

text \<open>
  C30: an oversized declaration is refused on the fixed header alone, by both framings: whatever part
  of the body has arrived, and without consuming the buffer.
\<close>

theorem oversize_refused_on_header:
  assumes "packet_type_try_from (drop_bit 4 first) \<noteq> None"
    and "n \<le> MQTT_SPEC_MAX_PACKET_SIZE" and "max_size < n"
  shows "decode_packet_from_bytes (first # encode_remaining_length n @ rest) max_size =
      (Err (Protocol (PacketTooLarge n max_size)), first # encode_remaining_length n @ rest)
    \<and> read_packet \<lparr>rd_bytes = first # encode_remaining_length n @ rest, rd_end = e\<rparr> max_size =
      Err (Protocol (PacketTooLarge n max_size))"
proof -
  let ?buf = "first # encode_remaining_length n @ rest"
  have l: "1 \<le> length (encode_remaining_length n)" using encoded_length_bounds [OF assms(2)] by simp
  moreover have "length ?buf = 1 + length (encode_remaining_length n) + length rest" by simp
  ultimately have l2: "\<not> length ?buf < 2" by linarith
  obtain t where "packet_type_try_from (drop_bit 4 first) = Some t" using assms(1) by auto
  then have d: "decode_packet_from_bytes ?buf max_size =
      (Err (Protocol (PacketTooLarge n max_size)), ?buf)"
    using l2 assms(3) decode_slice_encode [OF assms(2), of rest]
    by (simp add: decode_packet_from_bytes_def Let_def)
  have "length ?buf \<noteq> 1" using l2 by simp
  then show ?thesis
    using d read_packet_decode [of "\<lparr>rd_bytes = ?buf, rd_end = e\<rparr>" max_size]
    by (simp add: reader_verdict_def)
qed

theorem oversize_refused_on_header_witness:
  "decode_packet_from_bytes (0x30 # encode_remaining_length 268435455 @ []) 1024 =
     (Err (Protocol (PacketTooLarge 268435455 1024)), 0x30 # encode_remaining_length 268435455 @ [])"
  by (rule oversize_refused_on_header [THEN conjunct1])
    (simp_all add: packet_type_try_from_def MQTT_SPEC_MAX_PACKET_SIZE_def)


text \<open>
  C31: a decoded packet took a prefix of the buffer, at least the two bytes of a header and at most
  five more than the cap, and its strings are well-formed UTF-8 that fits the two-byte length field; a
  PUBLISH carries a packet id exactly when its quality of service is above zero.
\<close>

theorem decoded_packet_sound:
  assumes "decode_packet_from_bytes buf max_size = (Ok (Some p), rest)"
  shows "decoded_ok p \<and> (\<exists>used. buf = used @ rest \<and> 2 \<le> length used \<and> length used \<le> 5 + max_size)"
proof -
  from assms obtain first t k body where pp: "parse_packet first t (length body) body = Ok p"
    and k: "length body \<le> max_size" "1 \<le> k" "k \<le> 4"
    and buf: "buf = first # take k (drop 1 buf) @ body @ rest"
    and len: "length buf = 1 + k + length body + length rest"
    by (rule decode_SomeD)
  let ?used = "first # take k (drop 1 buf) @ body"
  have "buf = ?used @ rest" using buf by simp
  moreover from this len have "length ?used = 1 + k + length body"
    by (metis add_right_cancel length_append)
  ultimately show ?thesis
    using k parse_packet_ok [OF pp] by (intro conjI exI [of _ ?used]) simp_all
qed

theorem decoded_packet_sound_witness:
  "decode_packet_from_bytes [0x40, 0x02, 0x00, 0x07, 0xC0] 100 = (Ok (Some (Puback 7)), [0xC0]) \<and>
   decoded_ok (Puback 7)"
proof -
  have "decode_packet_from_bytes [0x40, 0x02, 0x00, 0x07, 0xC0] 100 = (Ok (Some (Puback 7)), [0xC0])"
    by (simp add: decode_packet_from_bytes_def packet_type_try_from_def parse_ack_packet_def
        decode_remaining_length_from_slice_def u16_from_be_bytes_def Let_def)
  with decoded_packet_sound [OF this] show ?thesis by simp
qed

section \<open>PUBLISH\<close>

text \<open>
  C28: the two PUBLISH encoders are one encoder. On every packet and every writer (one that fails
  part-way included) the streaming path has the outcome and leaves the bytes of the buffered path; a
  refused packet leaves not one byte on the wire.
\<close>

theorem publish_encoders_agree:
  "write_publish_packet p w = write_packet (Publish p) w
   \<and> (case encode_publish p of Err e \<Rightarrow> write_publish_packet p w = (Err (Codec e), w) | _ \<Rightarrow> True)"
  unfolding write_publish_packet_eq_write_packet
  by (simp add: write_packet_def split: outcome.split)

text \<open>
  What a PUBLISH encoder refuses, exactly: a topic past the two-byte length field, a quality of
  service above zero without an id or with id zero, a body past the remaining-length field. Everything
  else is encoded.
\<close>

theorem publish_refusals:
  "encode_publish p =
     (if length (pub_topic p) > 65535 then Err (CodecTopicTooLong (length (pub_topic p)) 65535)
      else if pub_qos p \<noteq> AtMostOnce \<and> pub_packet_id p = None then Err MissingPacketId
      else if pub_qos p \<noteq> AtMostOnce \<and> pub_packet_id p = Some 0 then Err ZeroPacketId
      else
        let i = (if pub_qos p = AtMostOnce then None else pub_packet_id p);
            len = 2 + length (pub_topic p) + (if i = None then 0 else 2) + length (pub_payload p)
        in if len > 268435455 then Err (BodyTooLong len 268435455)
           else Ok (frame (type_nibble TPublish OR pack_publish_flags p)
                      (publish_header p i @ pub_payload p)))"
  by (auto simp: encode_publish_def validate_publish_for_encode_def Let_def publish_header_def
      MQTT_SPEC_MAX_PACKET_SIZE_def split: option.splits)

lemma parse_publish_OkD:
  assumes "parse_publish first body = Ok (Publish p)"
  shows "body = publish_header p (pub_packet_id p) @ pub_payload p \<and>
    pack_publish_flags p = first AND 0x0F \<and> length (pub_topic p) < 65536 \<and>
    (pub_qos p = AtMostOnce \<longleftrightarrow> pub_packet_id p = None)"
proof -
  from assms obtain h q topic c i c' where h: "fixed_header_from_bits (first AND 0x0F) = Some h"
    and q: "qos_from_u8 (drop_bit 1 (h AND FH_QoS)) = Some q"
    and t: "read_arc_str body 0 = Ok (topic, c)"
    and i: "(if q \<noteq> AtMostOnce then obind (read_u16 body c) (\<lambda>(i, c). Ok (Some i, c))
        else Ok (None, c)) = (Ok (i, c') :: (packet_id option \<times> usize) result)"
    and p: "p = \<lparr>pub_topic = topic, pub_payload = drop c' body, pub_dup = flags_contain h FH_Dup,
        pub_qos = q, pub_retain = flags_contain h FH_Retain, pub_packet_id = i\<rparr>"
    by (auto simp: parse_publish_def Let_def outcome_simps slice_of_def split: if_splits)
  note t' = read_arc_str_OkD [OF t]
  have ib: "drop c body = (case i of None \<Rightarrow> [] | Some j \<Rightarrow> u16_to_be_bytes j) @ drop c' body"
    "q = AtMostOnce \<longleftrightarrow> i = None"
    using i by (auto simp: outcome_simps split: if_splits dest!: read_u16_OkD)
  from t' have "drop 0 body = write_arc_str [] topic @ drop c body" by blast
  then have b: "body = write_arc_str [] topic @ drop c body" by (simp only: drop_0)
  have "body = publish_header p (pub_packet_id p) @ pub_payload p"
    by (subst b, subst ib(1)) (simp add: p publish_header_def write_arc_str_def Let_def)
  moreover have "pack_publish_flags p = first AND 0x0F"
    by (rule publish_flags_of_first [OF h q]) (simp_all add: p)
  ultimately show ?thesis using ib(2) t' by (simp add: p)
qed

text \<open>
  A PUBLISH is forwarded verbatim. Re-encoding what was parsed out of a body gives back that
  body under the same flag nibble; the one received PUBLISH that cannot be re-encoded is the one
  with packet id zero, which the parser lets through and the encoder refuses.
\<close>

theorem parsed_publish_reencodes:
  assumes "parse_publish first body = Ok (Publish p)"
    and "length body \<le> MQTT_SPEC_MAX_PACKET_SIZE"
  shows "encode_publish p =
    (if pub_packet_id p = Some 0 then Err ZeroPacketId
     else Ok (frame (type_nibble TPublish OR (first AND 0x0F)) body))"
proof -
  note pD = parse_publish_OkD [OF assms(1)]
  show ?thesis
  proof (cases "pub_packet_id p = Some 0")
    case True
    with pD have "validate_publish_for_encode p = Err ZeroPacketId"
      by (simp add: validate_publish_for_encode_def)
    with True show ?thesis by (simp add: encode_publish_def)
  next
    case False
    with pD have "validate_publish_for_encode p = Ok (pub_packet_id p)"
      by (auto simp: validate_publish_for_encode_def split: option.splits)
    with pD assms(2) False show ?thesis by (simp add: encode_publish_def Let_def)
  qed
qed

theorem parsed_publish_reencodes_witness:
  "parse_publish 0x32 [0, 1, 97, 0, 0, 120] = Ok (Publish \<lparr>pub_topic = ''a'', pub_payload = [120],
      pub_dup = False, pub_qos = AtLeastOnce, pub_retain = False, pub_packet_id = Some 0\<rparr>)
   \<and> encode_publish \<lparr>pub_topic = ''a'', pub_payload = [120], pub_dup = False, pub_qos = AtLeastOnce,
      pub_retain = False, pub_packet_id = Some 0\<rparr> = Err ZeroPacketId"
proof -
  have "char_of_byte 97 = CHR ''a''"
    using char_of_byte_of_char [of "CHR ''a''"] by (simp add: byte_of_char_def)
  then have "parse_publish 0x32 [0, 1, 97, 0, 0, 120] = Ok (Publish \<lparr>pub_topic = ''a'', pub_payload = [120],
      pub_dup = False, pub_qos = AtLeastOnce, pub_retain = False, pub_packet_id = Some 0\<rparr>)"
    by (simp add: parse_publish_def fixed_header_from_bits_def mask_defs qos_from_u8_def
        flags_contain_def read_arc_str_def read_u16_def u16_from_be_bytes_def from_utf8_def
        utf8_width_def utf8_tail_ok_def Let_def)
  with parsed_publish_reencodes [OF this] show ?thesis
    by (simp add: MQTT_SPEC_MAX_PACKET_SIZE_def)
qed

section \<open>Fields that do not fit\<close>

text \<open>
  C35: outside PUBLISH nothing guards the two-byte length fields. A CONNECT whose client id is
  longer than 65535 bytes is encoded without an error, the declared length is the real one modulo
  65536, and no buffer decodes to that packet.
\<close>

theorem oversized_client_id_silently_truncated:
  assumes "65535 < length (con_client_id c)"
  shows "encode_packet (Connect c) = Ok (encode_connect c)
    \<and> take 2 (drop 10 (connect_body c)) = u16_to_be_bytes (as_u16 (length (con_client_id c)))
    \<and> unat (as_u16 (length (con_client_id c))) \<noteq> length (con_client_id c)
    \<and> (\<forall>buf max_size rest. decode_packet_from_bytes buf max_size \<noteq> (Ok (Some (Connect c)), rest))"
proof -
  have "decoded_ok (Connect c)" if "decode_packet_from_bytes buf n = (Ok (Some (Connect c)), rest)"
    for buf n rest
    using that by (rule decode_SomeD) (rule parse_packet_ok)
  moreover have "\<not> decoded_ok (Connect c)" using assms by (simp add: wf_connect_def str_field_def)
  moreover have "take 2 (drop 10 (connect_body c)) = u16_to_be_bytes (as_u16 (length (con_client_id c)))"
    by (simp add: connect_body_fields write_arc_str_def u16_to_be_bytes_def)
  moreover have "unat (as_u16 (length (con_client_id c))) < 65536" by simp
  then have "unat (as_u16 (length (con_client_id c))) \<noteq> length (con_client_id c)"
    using assms by linarith
  ultimately show ?thesis by auto
qed

theorem oversized_client_id_silently_truncated_witness:
  "\<exists>c. encode_packet (Connect c) = Ok (encode_connect c)
    \<and> (\<forall>buf max_size rest. decode_packet_from_bytes buf max_size \<noteq> (Ok (Some (Connect c)), rest))"
  using oversized_client_id_silently_truncated
    [of "sample_connect\<lparr>con_client_id := replicate 65536 CHR ''a''\<rparr>"] by auto

end
