(* ===== verification/Mqtt_Error.thy ===== *)
theory Mqtt_Error
  imports Mqtt_Packet
begin

text \<open>
  The behaviour of the error types, \<^verbatim>\<open>src/src/error.rs\<close>: the conversions the \<^verbatim>\<open>?\<close> operator applies, the
  cause of an error, and the text it is shown as, with the \<^verbatim>\<open>Debug\<close> output that the compiler derives for
  the enums it is made of; and the text of a CONNACK return code (\<^verbatim>\<open>src/src/packet.rs\<close>).
\<close>

section \<open>Derived Debug output\<close>

text \<open>
  \<^verbatim>\<open>Debug\<close> of a string: quoted, with the quote, the backslash and the control characters that have a
  short escape escaped. The strings shown this way are the packet names of the crate, letters only.
\<close>

fun debug_char :: "char \<Rightarrow> string" where
  "debug_char c =
     (if c = CHR 0x22 \<or> c = CHR 0x5C then [CHR 0x5C, c]
      else if c = CHR 0x0A then [CHR 0x5C, CHR ''n'']
      else if c = CHR 0x0D then [CHR 0x5C, CHR ''r'']
      else if c = CHR 0x09 then [CHR 0x5C, CHR ''t'']
      else if c = CHR 0x00 then [CHR 0x5C, CHR ''0'']
      else [c])"

definition debug_str :: "string \<Rightarrow> string" where
  "debug_str s = [CHR 0x22] @ concat (map debug_char s) @ [CHR 0x22]"

text \<open>A variant with a tuple field, and one with two named fields.\<close>

definition debug_tuple :: "string \<Rightarrow> string \<Rightarrow> string" where
  "debug_tuple name x = name @ ''('' @ x @ '')''"

definition debug_struct2 :: "string \<Rightarrow> string \<Rightarrow> string \<Rightarrow> string \<Rightarrow> string \<Rightarrow> string" where
  "debug_struct2 name f x g y = name @ '' { '' @ f @ '': '' @ x @ '', '' @ g @ '': '' @ y @ '' }''"

fun return_code_debug :: "connack_return_code \<Rightarrow> string" where
  "return_code_debug Accepted = ''Accepted''"
| "return_code_debug UnacceptableProtocolVersion = ''UnacceptableProtocolVersion''"
| "return_code_debug IdentifierRejected = ''IdentifierRejected''"
| "return_code_debug ServerUnavailable = ''ServerUnavailable''"
| "return_code_debug BadUsernameOrPassword = ''BadUsernameOrPassword''"
| "return_code_debug NotAuthorized = ''NotAuthorized''"

fun timeout_debug :: "timeout_kind \<Rightarrow> string" where
  "timeout_debug TimeoutConnack = ''Connack''"
| "timeout_debug TimeoutConnectReceive = ''ConnectReceive''"
| "timeout_debug TimeoutAck = ''Ack''"

fun violation_debug :: "violation \<Rightarrow> string" where
  "violation_debug ExpectedConnack = ''ExpectedConnack''"
| "violation_debug ExpectedConnect = ''ExpectedConnect''"
| "violation_debug (ConnectionRefused c) = debug_tuple ''ConnectionRefused'' (return_code_debug c)"
| "violation_debug (UnexpectedPacket x y) =
     debug_struct2 ''UnexpectedPacket'' ''expected'' (debug_str x) ''got'' (debug_str y)"
| "violation_debug InvalidProtocolName = ''InvalidProtocolName''"
| "violation_debug (UnsupportedProtocolLevel l) = debug_tuple ''UnsupportedProtocolLevel'' (show_nat (unat l))"
| "violation_debug EmptyTopic = ''EmptyTopic''"
| "violation_debug TopicTooLong = ''TopicTooLong''"
| "violation_debug WildcardInPublishTopic = ''WildcardInPublishTopic''"
| "violation_debug HashWildcardNotTerminal = ''HashWildcardNotTerminal''"
| "violation_debug WildcardMixedWithLiteral = ''WildcardMixedWithLiteral''"
| "violation_debug SessionAlreadyBound = ''SessionAlreadyBound''"
| "violation_debug (PacketTooLarge len mx) =
     debug_struct2 ''PacketTooLarge'' ''len'' (show_nat len) ''max'' (show_nat mx)"

fun codec_error_debug :: "codec_error \<Rightarrow> string" where
  "codec_error_debug UnexpectedEof = ''UnexpectedEof''"
| "codec_error_debug (InvalidPacketType b) = debug_tuple ''InvalidPacketType'' (show_nat (unat b))"
| "codec_error_debug MalformedLength = ''MalformedLength''"
| "codec_error_debug InvalidUtf8 = ''InvalidUtf8''"
| "codec_error_debug (PayloadTooLong len mx) =
     debug_struct2 ''PayloadTooLong'' ''len'' (show_nat len) ''max'' (show_nat mx)"
| "codec_error_debug (QosInvalid b) = debug_tuple ''QosInvalid'' (show_nat (unat b))"
| "codec_error_debug ReservedFlagSet = ''ReservedFlagSet''"
| "codec_error_debug MissingPacketId = ''MissingPacketId''"
| "codec_error_debug ZeroPacketId = ''ZeroPacketId''"
| "codec_error_debug (CodecTopicTooLong len mx) =
     debug_struct2 ''TopicTooLong'' ''len'' (show_nat len) ''max'' (show_nat mx)"
| "codec_error_debug (BodyTooLong len mx) =
     debug_struct2 ''BodyTooLong'' ''len'' (show_nat len) ''max'' (show_nat mx)"

section \<open>Display, source, conversions\<close>

text \<open>The text of an I/O error is the operating system's and an argument.\<close>

fun error_display :: "(io_error \<Rightarrow> string) \<Rightarrow> mqtt_error \<Rightarrow> string" where
  "error_display io_text (Io e) = ''I/O: '' @ io_text e"
| "error_display io_text ChannelClosed = ''channel closed''"
| "error_display io_text AckTimeout = ''ack timeout''"
| "error_display io_text (Timeout k) = ''timeout: '' @ timeout_debug k"
| "error_display io_text (Configuration m) = ''configuration: '' @ m"
| "error_display io_text (NotConnected m) = ''not connected: '' @ m"
| "error_display io_text (Protocol v) = ''protocol violation: '' @ violation_debug v"
| "error_display io_text (Codec c) = ''codec: '' @ codec_error_debug c"
| "error_display io_text (Unsupported m) = ''unsupported: '' @ m"

fun error_source :: "mqtt_error \<Rightarrow> io_error option" where
  "error_source (Io e) = Some e"
| "error_source _ = None"

definition error_from_io :: "io_error \<Rightarrow> mqtt_error" where
  "error_from_io e = Io e"

definition error_from_codec :: "codec_error \<Rightarrow> mqtt_error" where
  "error_from_codec e = Codec e"

definition error_from_violation :: "violation \<Rightarrow> mqtt_error" where
  "error_from_violation v = Protocol v"

fun return_code_display :: "connack_return_code \<Rightarrow> string" where
  "return_code_display Accepted = ''Accepted''"
| "return_code_display UnacceptableProtocolVersion = ''Unacceptable Protocol Version''"
| "return_code_display IdentifierRejected = ''Identifier Rejected''"
| "return_code_display ServerUnavailable = ''Server Unavailable''"
| "return_code_display BadUsernameOrPassword = ''Bad Username or Password''"
| "return_code_display NotAuthorized = ''Not Authorized''"

section \<open>What the texts tell apart\<close>

lemma return_code_inject [simp]:
  "return_code_display c = return_code_display c' \<longleftrightarrow> c = c'"
  "return_code_debug c = return_code_debug c' \<longleftrightarrow> c = c'"
  by (cases c; cases c'; simp)+

lemma timeout_debug_inject [simp]: "timeout_debug k = timeout_debug k' \<longleftrightarrow> k = k'"
  by (cases k; cases k') simp_all

lemma show_nat_digits: "d \<in> set (show_nat n) \<Longrightarrow> (of_char d :: nat) \<in> {48..57}"
proof (induction n rule: show_nat.induct)
  case (1 n)
  then show ?case by (subst (asm) show_nat.simps) (auto split: if_splits)
qed

lemma show_nat_no_comma: "CHR '','' \<notin> set (show_nat n)"
  using show_nat_digits by force

text \<open>A number ends where its digits end.\<close>

lemma show_nat_comma [simp]:
  "show_nat m @ CHR '','' # r = show_nat n @ CHR '','' # r' \<longleftrightarrow> m = n \<and> r = r'"
proof -
  have "takeWhile (\<lambda>c. c \<noteq> CHR '','') (show_nat k @ CHR '','' # t) = show_nat k" for k t
    using show_nat_no_comma [of k] by (subst takeWhile_append2) auto
  then show ?thesis by (metis append_same_eq list.inject same_append_eq show_nat_inject)
qed

text \<open>An escaped string ends at the first quote that no backslash precedes.\<close>

lemma debug_chars_inject:
  "concat (map debug_char x) @ CHR 0x22 # r = concat (map debug_char y) @ CHR 0x22 # r' \<longleftrightarrow> x = y \<and> r = r'"
proof (induction x arbitrary: y)
  case Nil
  show ?case by (cases y) auto
next
  case (Cons c x)
  show ?case
  proof (cases y)
    case Nil
    then show ?thesis by auto
  next
    case (Cons d z)
    have "debug_char c @ u = debug_char d @ v \<longleftrightarrow> c = d \<and> u = v" for u v by auto
    then show ?thesis using Cons.IH [of z] Cons by (auto simp del: debug_char.simps)
  qed
qed

lemma debug_str_inject [simp]: "debug_str x @ r = debug_str y @ r' \<longleftrightarrow> x = y \<and> r = r'"
  using debug_chars_inject [of x r y r'] by (simp add: debug_str_def del: debug_char.simps)

lemma violation_debug_inject [simp]: "violation_debug v = violation_debug v' \<longleftrightarrow> v = v'"
  using debug_str_inject [of _ "[]" _ "[]"]
  by (cases v; cases v') (simp_all add: debug_tuple_def debug_struct2_def word_unat_eq_iff)

lemma codec_error_debug_inject [simp]: "codec_error_debug e = codec_error_debug e' \<longleftrightarrow> e = e'"
  by (cases e; cases e') (simp_all add: debug_tuple_def debug_struct2_def word_unat_eq_iff)

text \<open>
  The text of an error tells which error it is, with everything it carries, as far as the texts of the
  I/O errors tell those apart.
\<close>

theorem error_text_identifies_error:
  "inj io_text \<Longrightarrow> error_display io_text e = error_display io_text e' \<longleftrightarrow> e = e'"
  by (cases e; cases e') (simp_all add: inj_eq)

end
