(* ===== verification/Mqtt_Session.thy ===== *)
theory Mqtt_Session
  imports Mqtt_Packet
begin

text \<open>
  The logical session of one client, \<^verbatim>\<open>src/src/session.rs\<close>: the packet-id counter, the one-time
  bind, the table of parked acknowledgement waiters, the half-received QoS 2 publishes and the
  outbound in-flight publishes.

  Every method of the session takes \<^verbatim>\<open>&self\<close> and each of its table accesses is atomic; a method is a
  function on the session record. The two-lookup wakers are split at the point where they release
  the read guard, so that what another task may do in between can be stated.
\<close>

section \<open>State\<close>

datatype ack_kind = KPuback | KPubrec | KPubcomp

text \<open>
  A \<^verbatim>\<open>tokio::sync::oneshot\<close> pair is a cell of the store \<open>oneshots\<close>, named by a number. The slot
  holds the sending half, the caller of \<open>park\<close> the receiving half. A cell is \<open>Waiting\<close> until the
  sender sends (\<open>Delivered\<close>) or is dropped without sending (\<open>SenderDropped\<close>: the receiver
  resolves with \<^verbatim>\<open>RecvError\<close>).
\<close>

type_synonym receiver = nat

datatype ack_value = AckId packet_id | AckCodes "suback_code list" | AckUnit

datatype oneshot = Waiting | Delivered ack_value | SenderDropped

datatype ack_slot =
    SlotPuback receiver
  | SlotPubrec receiver
  | SlotPubcomp receiver
  | SlotSuback receiver
  | SlotUnsuback receiver

record bind_info =
  bind_client_id :: rstr
  bind_keep_alive :: u16

record session =
  pkt_counter :: u16
  bind :: "bind_info option"
  qos2_recv :: "(u16, incoming_publish) dashmap"
  pending_acks :: "(u16, ack_slot) dashmap"
  outbound_inflight :: "(u16, publish_packet) dashmap"
  oneshots :: "receiver \<Rightarrow> oneshot"
  next_oneshot :: receiver

section \<open>Operations\<close>

definition session_new :: session where
  "session_new =
     \<lparr>pkt_counter = 0, bind = None, qos2_recv = [], pending_acks = [], outbound_inflight = [],
      oneshots = (\<lambda>_. SenderDropped), next_oneshot = 0\<rparr>"

text \<open>\<^verbatim>\<open>fetch_add\<close> returns the value before the addition, which wraps.\<close>

definition allocate_packet_id :: "session \<Rightarrow> packet_id \<times> session" where
  "allocate_packet_id s =
     (let old = pkt_counter s;
          s' = s\<lparr>pkt_counter := old + 1\<rparr>;
          i = old + 1
      in (if i = 0 then 1 else i, s'))"

fun slot_sender :: "ack_slot \<Rightarrow> receiver" where
  "slot_sender (SlotPuback r) = r"
| "slot_sender (SlotPubrec r) = r"
| "slot_sender (SlotPubcomp r) = r"
| "slot_sender (SlotSuback r) = r"
| "slot_sender (SlotUnsuback r) = r"

text \<open>Dropping a sender that has not sent resolves its receiver; sending consumes the sender.\<close>

definition drop_sender :: "receiver \<Rightarrow> (receiver \<Rightarrow> oneshot) \<Rightarrow> receiver \<Rightarrow> oneshot" where
  "drop_sender r os = (if os r = Waiting then os(r := SenderDropped) else os)"

definition send_on :: "receiver \<Rightarrow> ack_value \<Rightarrow> session \<Rightarrow> session" where
  "send_on r v s = s\<lparr>oneshots := (oneshots s)(r := Delivered v)\<rparr>"

text \<open>\<^verbatim>\<open>oneshot::channel()\<close>.\<close>

definition oneshot_channel :: "session \<Rightarrow> receiver \<times> session" where
  "oneshot_channel s =
     (next_oneshot s,
      s\<lparr>oneshots := (oneshots s)(next_oneshot s := Waiting), next_oneshot := Suc (next_oneshot s)\<rparr>)"

text \<open>
  \<^verbatim>\<open>DashMap::insert\<close> on the table of waiters returns the value it replaces, which the callers drop;
  so does \<^verbatim>\<open>remove\<close> when its result is not used.
\<close>

definition insert_slot :: "packet_id \<Rightarrow> ack_slot \<Rightarrow> session \<Rightarrow> session" where
  "insert_slot pid slot s =
     s\<lparr>pending_acks := dm_insert pid slot (pending_acks s),
       oneshots := (case dm_get (pending_acks s) pid of
                      None \<Rightarrow> oneshots s
                    | Some old \<Rightarrow> drop_sender (slot_sender old) (oneshots s))\<rparr>"

fun slot_of_kind :: "ack_kind \<Rightarrow> receiver \<Rightarrow> ack_slot" where
  "slot_of_kind KPuback r = SlotPuback r"
| "slot_of_kind KPubrec r = SlotPubrec r"
| "slot_of_kind KPubcomp r = SlotPubcomp r"

definition park_publish_ack_waiter :: "packet_id \<Rightarrow> ack_kind \<Rightarrow> session \<Rightarrow> receiver \<times> session" where
  "park_publish_ack_waiter pid kind s =
     (let (r, s1) = oneshot_channel s in (r, insert_slot pid (slot_of_kind kind r) s1))"

definition park_suback_waiter :: "packet_id \<Rightarrow> session \<Rightarrow> receiver \<times> session" where
  "park_suback_waiter pid s =
     (let (r, s1) = oneshot_channel s in (r, insert_slot pid (SlotSuback r) s1))"

definition park_unsuback_waiter :: "packet_id \<Rightarrow> session \<Rightarrow> receiver \<times> session" where
  "park_unsuback_waiter pid s =
     (let (r, s1) = oneshot_channel s in (r, insert_slot pid (SlotUnsuback r) s1))"

definition cancel_ack_waiter :: "packet_id \<Rightarrow> session \<Rightarrow> session" where
  "cancel_ack_waiter pid s =
     s\<lparr>pending_acks := dm_remove pid (pending_acks s),
       oneshots := (case dm_get (pending_acks s) pid of
                      None \<Rightarrow> oneshots s
                    | Some old \<Rightarrow> drop_sender (slot_sender old) (oneshots s))\<rparr>"

text \<open>
  The wakers. The first lookup decides; after the read guard is released the second one removes the
  slot and either uses its sender or puts it back.
\<close>

fun is_suback_slot :: "ack_slot \<Rightarrow> bool" where
  "is_suback_slot (SlotSuback _) = True"
| "is_suback_slot _ = False"

fun is_unsuback_slot :: "ack_slot \<Rightarrow> bool" where
  "is_unsuback_slot (SlotUnsuback _) = True"
| "is_unsuback_slot _ = False"

fun parked_kind :: "ack_slot \<Rightarrow> ack_kind option" where
  "parked_kind (SlotPuback _) = Some KPuback"
| "parked_kind (SlotPubrec _) = Some KPubrec"
| "parked_kind (SlotPubcomp _) = Some KPubcomp"
| "parked_kind (SlotSuback _) = None"
| "parked_kind (SlotUnsuback _) = None"

definition peek_slot :: "packet_id \<Rightarrow> (ack_slot \<Rightarrow> bool) \<Rightarrow> session \<Rightarrow> bool" where
  "peek_slot pid mine s = (case dm_get (pending_acks s) pid of None \<Rightarrow> False | Some slot \<Rightarrow> mine slot)"

definition take_slot :: "packet_id \<Rightarrow> (ack_slot \<Rightarrow> bool) \<Rightarrow> ack_value \<Rightarrow> session \<Rightarrow> session" where
  "take_slot pid usable v s =
     (case dm_get (pending_acks s) pid of
        None \<Rightarrow> s
      | Some slot \<Rightarrow>
          (let s1 = s\<lparr>pending_acks := dm_remove pid (pending_acks s)\<rparr> in
           if usable slot then send_on (slot_sender slot) v s1 else insert_slot pid slot s1))"

definition wake_suback_waiter :: "packet_id \<Rightarrow> suback_code list \<Rightarrow> session \<Rightarrow> session" where
  "wake_suback_waiter pid return_codes s =
     (if \<not> peek_slot pid is_suback_slot s then s
      else take_slot pid is_suback_slot (AckCodes return_codes) s)"

definition wake_unsuback_waiter :: "packet_id \<Rightarrow> session \<Rightarrow> session" where
  "wake_unsuback_waiter pid s =
     (if \<not> peek_slot pid is_unsuback_slot s then s
      else take_slot pid is_unsuback_slot AckUnit s)"

definition wake_ack_waiter :: "packet_id \<Rightarrow> ack_kind \<Rightarrow> session \<Rightarrow> session" where
  "wake_ack_waiter pid expected s =
     (if \<not> peek_slot pid (\<lambda>slot. parked_kind slot = Some expected) s then s
      else take_slot pid (\<lambda>slot. parked_kind slot \<noteq> None) (AckId pid) s)"

definition clear_outbound_inflight :: "packet_id \<Rightarrow> session \<Rightarrow> session" where
  "clear_outbound_inflight pid s = s\<lparr>outbound_inflight := dm_remove pid (outbound_inflight s)\<rparr>"

definition stash_qos2_publish :: "packet_id \<Rightarrow> incoming_publish \<Rightarrow> session \<Rightarrow> session" where
  "stash_qos2_publish pid p s = s\<lparr>qos2_recv := dm_insert pid p (qos2_recv s)\<rparr>"

definition take_qos2_publish :: "packet_id \<Rightarrow> session \<Rightarrow> incoming_publish option \<times> session" where
  "take_qos2_publish pid s =
     (dm_get (qos2_recv s) pid, s\<lparr>qos2_recv := dm_remove pid (qos2_recv s)\<rparr>)"

definition track_outbound_inflight :: "packet_id \<Rightarrow> publish_packet \<Rightarrow> session \<Rightarrow> session" where
  "track_outbound_inflight pid p s = s\<lparr>outbound_inflight := dm_insert pid p (outbound_inflight s)\<rparr>"

definition has_outbound_inflight :: "packet_id \<Rightarrow> session \<Rightarrow> bool" where
  "has_outbound_inflight pid s \<longleftrightarrow> dm_get (outbound_inflight s) pid \<noteq> None"

text \<open>\<^verbatim>\<open>pending_acks.clear()\<close> drops every parked sender.\<close>

definition abandon :: "session \<Rightarrow> session" where
  "abandon s =
     s\<lparr>oneshots := fold (\<lambda>e. drop_sender (slot_sender (snd e))) (pending_acks s) (oneshots s),
       pending_acks := [], qos2_recv := [], outbound_inflight := []\<rparr>"

text \<open>The write-once bind; \<open>Err\<close> hands the refused value back.\<close>

definition bind_set :: "bind_info \<Rightarrow> session \<Rightarrow> (bind_info, unit) outcome \<times> session" where
  "bind_set info s =
     (case bind s of
        None \<Rightarrow> (Ok (), s\<lparr>bind := Some info\<rparr>)
      | Some _ \<Rightarrow> (Err info, s))"

definition bind_get_client_id :: "session \<Rightarrow> rstr option" where
  "bind_get_client_id s = map_option bind_client_id (bind s)"

definition bind_get_keep_alive :: "session \<Rightarrow> u16 option" where
  "bind_get_keep_alive s = map_option bind_keep_alive (bind s)"

section \<open>Invariant\<close>

definition senders :: "session \<Rightarrow> receiver set" where
  "senders s = (\<lambda>e. slot_sender (snd e)) ` set (pending_acks s)"

text \<open>
  The tables have distinct keys, no two slots hold the same sender, and a receiver is waiting
  exactly when a slot holds its sender: nobody waits on a sender that no slot owns.
\<close>

definition session_ok :: "session \<Rightarrow> bool" where
  "session_ok s \<longleftrightarrow>
     dm_wf (pending_acks s) \<and> dm_wf (qos2_recv s) \<and> dm_wf (outbound_inflight s) \<and>
     inj_on (\<lambda>e. slot_sender (snd e)) (set (pending_acks s)) \<and>
     (\<forall>r. oneshots s r = Waiting \<longleftrightarrow> r \<in> senders s) \<and>
     (\<forall>r \<in> senders s. r < next_oneshot s)"

lemma session_okD:
  assumes "session_ok s"
  shows "dm_wf (pending_acks s)" and "dm_wf (qos2_recv s)" and "dm_wf (outbound_inflight s)"
    and "inj_on (\<lambda>e. slot_sender (snd e)) (set (pending_acks s))"
    and "oneshots s r = Waiting \<longleftrightarrow> r \<in> senders s"
    and "r \<in> senders s \<Longrightarrow> r < next_oneshot s"
  using assms by (auto simp: session_ok_def)

lemma session_ok_new [inv_intros]: "session_ok session_new"
  by (simp add: session_ok_def session_new_def senders_def)

text \<open>The invariant only looks at the tables, the cells and the next cell number.\<close>

lemma session_ok_cong:
  assumes "session_ok s" and "set (pending_acks s') = set (pending_acks s)" and "dm_wf (pending_acks s')"
    and "oneshots s' = oneshots s" and "next_oneshot s' = next_oneshot s"
    and "dm_wf (qos2_recv s')" and "dm_wf (outbound_inflight s')"
  shows "session_ok s'"
  using assms by (simp add: session_ok_def senders_def)

lemma sender_mem: "dm_get (pending_acks s) pid = Some slot \<Longrightarrow> slot_sender slot \<in> senders s"
  unfolding senders_def by (drule dm_get_SomeD) (metis image_eqI snd_conv)

lemma sender_fresh:
  assumes "session_ok s" and "dm_get (pending_acks s) pid = Some slot"
  shows "slot_sender slot \<noteq> next_oneshot s" and "oneshots s (slot_sender slot) = Waiting"
  using sender_mem [OF assms(2)] session_okD(5,6) [OF assms(1), of "slot_sender slot"]
  by auto

lemma senders_remove:
  assumes "session_ok s" and "dm_get (pending_acks s) pid = Some slot"
  shows "(\<lambda>e. slot_sender (snd e)) ` set (dm_remove pid (pending_acks s)) =
    senders s - {slot_sender slot}"
proof -
  have "(pid, slot) \<in> set (pending_acks s)" using assms(2) by (rule dm_get_SomeD)
  then show ?thesis
    using inj_on_image_set_diff [OF session_okD(4) [OF assms(1)], of "set (pending_acks s)" "{(pid, slot)}"]
    by (simp add: senders_def set_dm_remove_get [OF session_okD(1) [OF assms(1)] assms(2)])
qed

lemma senders_remove_none:
  "dm_get (pending_acks s) pid = None \<Longrightarrow>
   (\<lambda>e. slot_sender (snd e)) ` set (dm_remove pid (pending_acks s)) = senders s"
  by (force simp: senders_def set_dm_remove dm_get_None_iff)

lemma inj_on_remove:
  "session_ok s \<Longrightarrow> inj_on (\<lambda>e. slot_sender (snd e)) (set (dm_remove pid (pending_acks s)))"
  by (rule inj_on_subset [OF session_okD(4)]) (auto simp: set_dm_remove)

text \<open>Taking a slot out of the table and settling its cell, by sending or by dropping.\<close>

lemma session_ok_settle:
  assumes "session_ok s" and "dm_get (pending_acks s) pid = Some slot" and "c \<noteq> Waiting"
  shows "session_ok (s\<lparr>pending_acks := dm_remove pid (pending_acks s),
    oneshots := (oneshots s)(slot_sender slot := c)\<rparr>)"
  unfolding session_ok_def senders_def
  using assms senders_remove [OF assms(1,2)] inj_on_remove [OF assms(1), of pid] session_okD [OF assms(1)]
  by auto

lemma session_ok_cancel [inv_intros]:
  assumes "session_ok s" shows "session_ok (cancel_ack_waiter pid s)"
proof (cases "dm_get (pending_acks s) pid")
  case None
  then show ?thesis
    unfolding cancel_ack_waiter_def session_ok_def senders_def
    using senders_remove_none [OF None] inj_on_remove [OF assms, of pid] session_okD [OF assms]
    by simp
next
  case (Some slot)
  from sender_fresh [OF assms Some] session_ok_settle [OF assms Some, of SenderDropped] Some
  show ?thesis
    by (simp add: cancel_ack_waiter_def drop_sender_def)
qed

text \<open>Parking: a fresh cell, then the slot in place of the one it replaces.\<close>

definition park_slot :: "packet_id \<Rightarrow> (receiver \<Rightarrow> ack_slot) \<Rightarrow> session \<Rightarrow> receiver \<times> session" where
  "park_slot pid mk s = (let (r, s1) = oneshot_channel s in (r, insert_slot pid (mk r) s1))"

lemma parks_eq:
  "park_publish_ack_waiter pid kind = park_slot pid (slot_of_kind kind)"
  "park_suback_waiter pid = park_slot pid SlotSuback"
  "park_unsuback_waiter pid = park_slot pid SlotUnsuback"
  by (simp_all add: fun_eq_iff park_slot_def park_publish_ack_waiter_def park_suback_waiter_def
      park_unsuback_waiter_def)

lemma slot_sender_of_kind [simp]: "slot_sender (slot_of_kind kind r) = r"
  by (cases kind) simp_all

lemma parked_kind_of_kind [simp]: "parked_kind (slot_of_kind kind r) = Some kind"
  by (cases kind) simp_all

text \<open>Parking is cancelling what was there, then filling a fresh cell.\<close>

lemma park_slot_eq:
  assumes "session_ok s" and "slot_sender (mk (next_oneshot s)) = next_oneshot s"
  shows "park_slot pid mk s =
    (next_oneshot s,
     s\<lparr>pending_acks := dm_insert pid (mk (next_oneshot s)) (pending_acks s),
       oneshots := (oneshots (cancel_ack_waiter pid s))(next_oneshot s := Waiting),
       next_oneshot := Suc (next_oneshot s)\<rparr>)"
  using sender_fresh [OF assms(1), of pid]
  by (auto simp: park_slot_def oneshot_channel_def insert_slot_def cancel_ack_waiter_def
      drop_sender_def fun_upd_twist split: option.splits)

lemma session_ok_park_slot:
  assumes ok: "session_ok s" and mk: "\<And>r. slot_sender (mk r) = r"
  shows "session_ok (snd (park_slot pid mk s))"
proof -
  define c where "c = cancel_ack_waiter pid s"
  have c: "session_ok c" using session_ok_cancel [OF ok] by (simp add: c_def)
  have pc: "pending_acks c = dm_remove pid (pending_acks s)" "next_oneshot c = next_oneshot s"
    "qos2_recv c = qos2_recv s" "outbound_inflight c = outbound_inflight s"
    by (simp_all add: c_def cancel_ack_waiter_def)
  have set: "set (dm_insert pid (mk n) (pending_acks s)) = insert (pid, mk n) (set (pending_acks c))" for n
    using set_dm_insert [OF session_okD(1) [OF ok]] pc by (simp add: set_dm_remove)
  have fresh: "next_oneshot s \<notin> senders c"
    using session_okD(6) [OF c, of "next_oneshot s"] pc by auto
  have "inj_on (\<lambda>e. slot_sender (snd e)) (insert (pid, mk (next_oneshot s)) (set (pending_acks c)))"
    using session_okD(4) [OF c] fresh by (auto simp: mk senders_def image_iff)
  with session_okD [OF c] session_okD [OF ok] show ?thesis
    by (auto simp: park_slot_eq [of s mk, OF ok mk] session_ok_def senders_def set pc mk less_Suc_eq
        simp flip: c_def)
qed

lemma session_ok_parks [inv_intros]:
  assumes "session_ok s"
  shows "session_ok (snd (park_publish_ack_waiter pid kind s))"
    and "session_ok (snd (park_suback_waiter pid s))"
    and "session_ok (snd (park_unsuback_waiter pid s))"
  unfolding parks_eq using assms by (intro session_ok_park_slot; simp)+

text \<open>The second half of a waker keeps the invariant whatever happened since the first half.\<close>

lemma session_ok_take_slot [inv_intros]:
  assumes ok: "session_ok s" shows "session_ok (take_slot pid usable v s)"
proof (cases "dm_get (pending_acks s) pid")
  case None
  with ok show ?thesis by (simp add: take_slot_def)
next
  case (Some slot)
  show ?thesis
  proof (cases "usable slot")
    case True
    with session_ok_settle [OF ok Some, of "Delivered v"] Some show ?thesis
      by (simp add: take_slot_def send_on_def)
  next
    case False
    have "set (dm_insert pid slot (dm_remove pid (pending_acks s))) = set (pending_acks s)"
      using Some session_okD(1) [OF ok] by (intro dm_set_eqI) auto
    with False Some session_okD(1-3) [OF ok] show ?thesis
      by (intro session_ok_cong [OF ok]) (simp_all add: take_slot_def insert_slot_def)
  qed
qed

lemma session_ok_wakes [inv_intros]:
  assumes "session_ok s"
  shows "session_ok (wake_ack_waiter pid kind s)" and "session_ok (wake_suback_waiter pid codes s)"
    and "session_ok (wake_unsuback_waiter pid s)"
  using assms
  by (simp_all add: wake_ack_waiter_def wake_suback_waiter_def wake_unsuback_waiter_def
      session_ok_take_slot)

lemma session_ok_tables [inv_intros]:
  assumes "session_ok s"
  shows "session_ok (snd (allocate_packet_id s))" and "session_ok (clear_outbound_inflight pid s)"
    and "session_ok (stash_qos2_publish pid p s)" and "session_ok (snd (take_qos2_publish pid s))"
    and "session_ok (track_outbound_inflight pid q s)" and "session_ok (snd (bind_set info s))"
  using session_okD [OF assms]
  by (auto simp: allocate_packet_id_def clear_outbound_inflight_def stash_qos2_publish_def
      take_qos2_publish_def track_outbound_inflight_def bind_set_def Let_def
      intro!: session_ok_cong [OF assms] split: option.splits)

lemma fold_drop_sender:
  "fold (\<lambda>e. drop_sender (slot_sender (snd e))) es os r =
   (if r \<in> (\<lambda>e. slot_sender (snd e)) ` set es \<and> os r = Waiting then SenderDropped else os r)"
  by (induction es arbitrary: os) (auto simp: drop_sender_def)

lemma oneshots_abandon:
  assumes "session_ok s"
  shows "oneshots (abandon s) r = (if oneshots s r = Waiting then SenderDropped else oneshots s r)"
  using session_okD(5) [OF assms, of r] by (auto simp: abandon_def fold_drop_sender senders_def)

lemma session_ok_abandon [inv_intros]: "session_ok s \<Longrightarrow> session_ok (abandon s)"
  using oneshots_abandon [of s] by (auto simp: session_ok_def senders_def abandon_def)

section \<open>The contract of a parked waiter\<close>

text \<open>
  What the senders of requests rely on, for each of the three kinds of acknowledgement: parking gives
  a waiting receiver whose slot is recognised as \<open>mine\<close>, waking settles exactly such a slot, and
  waking on anything else changes nothing.
\<close>

locale ack_flow =
  fixes pid :: packet_id
    and park :: "session \<Rightarrow> receiver \<times> session"
    and wake :: "'v \<Rightarrow> session \<Rightarrow> session"
    and mine :: "ack_slot \<Rightarrow> bool"
    and reply :: "'v \<Rightarrow> ack_value"
  assumes park_ok: "session_ok s \<Longrightarrow> session_ok (snd (park s))"
    and park_slot: "session_ok s \<Longrightarrow> \<exists>slot. dm_get (pending_acks (snd (park s))) pid = Some slot \<and>
        mine slot \<and> slot_sender slot = fst (park s)"
    and wake_mine: "dm_get (pending_acks s) pid = Some slot \<Longrightarrow> mine slot \<Longrightarrow>
        wake v s = send_on (slot_sender slot) (reply v) (s\<lparr>pending_acks := dm_remove pid (pending_acks s)\<rparr>)"
    and wake_other: "(\<And>slot. dm_get (pending_acks s) pid = Some slot \<Longrightarrow> \<not> mine slot) \<Longrightarrow> wake v s = s"
begin

lemma parked_waits: "session_ok s \<Longrightarrow> oneshots (snd (park s)) (fst (park s)) = Waiting"
  using park_slot park_ok sender_fresh(2) by metis

lemma wake_delivers:
  assumes "dm_get (pending_acks s) pid = Some slot" and "mine slot"
  shows "oneshots (wake v s) (slot_sender slot) = Delivered (reply v)"
    and "dm_get (pending_acks (wake v s)) pid = None"
    and "q \<noteq> slot_sender slot \<Longrightarrow> oneshots (wake v s) q = oneshots s q"
  using wake_mine [OF assms] by (simp_all add: send_on_def)

lemma wake_twice: "wake w (wake v s) = wake v s"
proof (cases "\<exists>slot. dm_get (pending_acks s) pid = Some slot \<and> mine slot")
  case True
  then have "dm_get (pending_acks (wake v s)) pid = None" using wake_delivers(2) by blast
  then show ?thesis by (intro wake_other) simp
next
  case False
  then have "wake u s = s" for u by (intro wake_other) blast
  then show ?thesis by simp
qed

lemma wake_park:
  assumes "session_ok s"
  shows "oneshots (wake v (snd (park s))) (fst (park s)) = Delivered (reply v)"
  using park_slot [OF assms] wake_delivers(1) by metis

end

lemma take_slot_usable:
  "dm_get (pending_acks s) pid = Some slot \<Longrightarrow> usable slot \<Longrightarrow>
   take_slot pid usable v s = send_on (slot_sender slot) v (s\<lparr>pending_acks := dm_remove pid (pending_acks s)\<rparr>)"
  by (simp add: take_slot_def)

lemma peek_slot_simps [simp]:
  "dm_get (pending_acks s) pid = Some slot \<Longrightarrow> peek_slot pid mine s = mine slot"
  "(\<And>slot. dm_get (pending_acks s) pid = Some slot \<Longrightarrow> \<not> mine slot) \<Longrightarrow> \<not> peek_slot pid mine s"
  by (auto simp: peek_slot_def split: option.splits)

lemma park_slot_get:
  "session_ok s \<Longrightarrow> (\<And>r. slot_sender (mk r) = r) \<Longrightarrow>
   dm_get (pending_acks (snd (park_slot pid mk s))) pid = Some (mk (next_oneshot s)) \<and>
   fst (park_slot pid mk s) = next_oneshot s"
  by (simp add: park_slot_eq)

interpretation publish_ack: ack_flow pid "park_publish_ack_waiter pid kind"
  "\<lambda>_ :: unit. wake_ack_waiter pid kind" "\<lambda>slot. parked_kind slot = Some kind" "\<lambda>_. AckId pid"
  for pid kind
  by unfold_locales
    (simp_all add: session_ok_parks, simp_all add: parks_eq park_slot_get wake_ack_waiter_def take_slot_usable)

interpretation suback: ack_flow pid "park_suback_waiter pid" "wake_suback_waiter pid" is_suback_slot AckCodes
  for pid
  by unfold_locales
    (simp_all add: session_ok_parks, simp_all add: parks_eq park_slot_get wake_suback_waiter_def take_slot_usable)

interpretation unsuback: ack_flow pid "park_unsuback_waiter pid" "\<lambda>_ :: unit. wake_unsuback_waiter pid"
  is_unsuback_slot "\<lambda>_. AckUnit" for pid
  by unfold_locales
    (simp_all add: session_ok_parks, simp_all add: parks_eq park_slot_get wake_unsuback_waiter_def take_slot_usable)

section \<open>Sequences of operations\<close>

text \<open>
  Everything another task can do to a session, as one operation each. The second halves of the wakers
  are operations of their own, so that a sequence covers every interleaving at the released guard.
\<close>

datatype session_op =
    OpAllocate
  | OpParkPublish packet_id ack_kind
  | OpParkSuback packet_id
  | OpParkUnsuback packet_id
  | OpCancel packet_id
  | OpWakeAck packet_id ack_kind
  | OpWakeSuback packet_id "suback_code list"
  | OpWakeUnsuback packet_id
  | OpSecondHalf packet_id "ack_slot \<Rightarrow> bool" ack_value
  | OpClear packet_id
  | OpStash packet_id incoming_publish
  | OpTake packet_id
  | OpTrack packet_id publish_packet
  | OpBind bind_info
  | OpAbandon

fun session_step :: "session_op \<Rightarrow> session \<Rightarrow> session" where
  "session_step OpAllocate s = snd (allocate_packet_id s)"
| "session_step (OpParkPublish pid kind) s = snd (park_publish_ack_waiter pid kind s)"
| "session_step (OpParkSuback pid) s = snd (park_suback_waiter pid s)"
| "session_step (OpParkUnsuback pid) s = snd (park_unsuback_waiter pid s)"
| "session_step (OpCancel pid) s = cancel_ack_waiter pid s"
| "session_step (OpWakeAck pid kind) s = wake_ack_waiter pid kind s"
| "session_step (OpWakeSuback pid codes) s = wake_suback_waiter pid codes s"
| "session_step (OpWakeUnsuback pid) s = wake_unsuback_waiter pid s"
| "session_step (OpSecondHalf pid usable v) s = take_slot pid usable v s"
| "session_step (OpClear pid) s = clear_outbound_inflight pid s"
| "session_step (OpStash pid p) s = stash_qos2_publish pid p s"
| "session_step (OpTake pid) s = snd (take_qos2_publish pid s)"
| "session_step (OpTrack pid p) s = track_outbound_inflight pid p s"
| "session_step (OpBind info) s = snd (bind_set info s)"
| "session_step OpAbandon s = abandon s"

definition session_run :: "session_op list \<Rightarrow> session \<Rightarrow> session" where
  "session_run ops s = fold session_step ops s"

lemma session_ok_step: "session_ok s \<Longrightarrow> session_ok (session_step op s)"
  by (cases op) (simp_all add: inv_intros)

lemma session_ok_run: "session_ok s \<Longrightarrow> session_ok (session_run ops s)"
  unfolding session_run_def by (induction ops arbitrary: s) (simp_all add: session_ok_step)

text \<open>The operations that leave the publish held under \<open>pid\<close> alone.\<close>

fun spares_qos2 :: "packet_id \<Rightarrow> session_op \<Rightarrow> bool" where
  "spares_qos2 pid (OpStash pid' _) \<longleftrightarrow> pid' \<noteq> pid"
| "spares_qos2 pid (OpTake pid') \<longleftrightarrow> pid' \<noteq> pid"
| "spares_qos2 pid OpAbandon \<longleftrightarrow> False"
| "spares_qos2 pid _ \<longleftrightarrow> True"

lemma qos2_recv_unchanged [simp]:
  "qos2_recv (insert_slot pid slot s) = qos2_recv s"
  "qos2_recv (send_on r v s) = qos2_recv s"
  "qos2_recv (cancel_ack_waiter pid s) = qos2_recv s"
  "qos2_recv (snd (park_slot pid mk s)) = qos2_recv s"
  by (simp_all add: insert_slot_def send_on_def cancel_ack_waiter_def park_slot_def oneshot_channel_def)

lemma qos2_recv_wakes [simp]:
  "qos2_recv (take_slot pid usable v s) = qos2_recv s"
  "qos2_recv (wake_ack_waiter pid kind s) = qos2_recv s"
  "qos2_recv (wake_suback_waiter pid codes s) = qos2_recv s"
  "qos2_recv (wake_unsuback_waiter pid s) = qos2_recv s"
proof -
  show t: "qos2_recv (take_slot pid usable v s) = qos2_recv s" for usable v
    by (simp add: take_slot_def Let_def split: option.splits)
  show "qos2_recv (wake_ack_waiter pid kind s) = qos2_recv s"
    "qos2_recv (wake_suback_waiter pid codes s) = qos2_recv s"
    "qos2_recv (wake_unsuback_waiter pid s) = qos2_recv s"
    by (simp_all add: wake_ack_waiter_def wake_suback_waiter_def wake_unsuback_waiter_def t)
qed

lemma spares_qos2_step:
  "spares_qos2 pid op \<Longrightarrow> dm_get (qos2_recv (session_step op s)) pid = dm_get (qos2_recv s) pid"
  by (cases op)
    (auto simp: parks_eq allocate_packet_id_def clear_outbound_inflight_def stash_qos2_publish_def
      take_qos2_publish_def track_outbound_inflight_def bind_set_def Let_def split: option.splits)

lemma spares_qos2_run:
  "list_all (spares_qos2 pid) ops \<Longrightarrow>
   dm_get (qos2_recv (session_run ops s)) pid = dm_get (qos2_recv s) pid"
  unfolding session_run_def by (induction ops arbitrary: s) (simp_all add: spares_qos2_step)

section \<open>Packet identifiers\<close>

text \<open>The identifiers handed out by \<open>n\<close> calls in a row.\<close>

fun allocate_ids :: "nat \<Rightarrow> session \<Rightarrow> packet_id list" where
  "allocate_ids 0 s = []"
| "allocate_ids (Suc n) s = (let (i, s') = allocate_packet_id s in i # allocate_ids n s')"

lemma allocate_packet_id_nonzero [simp]: "fst (allocate_packet_id s) \<noteq> 0"
  by (simp add: allocate_packet_id_def Let_def)

lemma length_allocate_ids [simp]: "length (allocate_ids n s) = n"
  by (induction n arbitrary: s) (simp_all add: Let_def split: prod.splits)

lemma nth_allocate_ids:
  "k < n \<Longrightarrow> allocate_ids n s ! k =
   (let i = pkt_counter s + word_of_nat (Suc k) in if i = 0 then 1 else i)"
proof (induction n arbitrary: s k)
  case 0
  then show ?case by simp
next
  case (Suc n)
  show ?case
  proof (cases k)
    case 0
    then show ?thesis by (simp add: allocate_packet_id_def Let_def add.commute)
  next
    case (Suc j)
    with Suc.prems Suc.IH [of j "snd (allocate_packet_id s)"] show ?thesis
      by (simp add: allocate_packet_id_def Let_def ac_simps)
  qed
qed

lemma word_of_nat_inj_u16:
  "a < 65536 \<Longrightarrow> b < 65536 \<Longrightarrow> (word_of_nat a :: u16) = word_of_nat b \<longleftrightarrow> a = b"
  by (metis unat_as_u16 as_u16_def)

lemma word_of_nat_nonzero_u16: "0 < a \<Longrightarrow> a < 65536 \<Longrightarrow> (word_of_nat a :: u16) \<noteq> 0"
  using word_of_nat_inj_u16 [of a 0] by simp

lemma nth_fresh_ids:
  assumes "k < n" and "k < 65535"
  shows "allocate_ids n session_new ! k = word_of_nat (Suc k)"
proof -
  have "(word_of_nat (Suc k) :: u16) \<noteq> 0" by (rule word_of_nat_nonzero_u16) (use assms in simp_all)
  with assms(1) show ?thesis by (simp add: nth_allocate_ids session_new_def Let_def del: of_nat_Suc)
qed

section \<open>Properties\<close>

text \<open>
  C14: an acknowledgement reaches the waiter it belongs to and no other. After a waiter is parked for
  one kind of publish acknowledgement under an id, the acknowledgements of the other kinds and those
  of SUBSCRIBE and UNSUBSCRIBE leave the session exactly as it is; the expected one delivers the id
  to that receiver, frees the slot and touches no other receiver; its duplicate does nothing.
\<close>

theorem ack_reaches_its_waiter:
  assumes "session_ok s" and "park_publish_ack_waiter pid kind s = (r, s1)"
  shows "oneshots s1 r = Waiting \<and>
    (\<forall>other. other \<noteq> kind \<longrightarrow> wake_ack_waiter pid other s1 = s1) \<and>
    wake_suback_waiter pid codes s1 = s1 \<and> wake_unsuback_waiter pid s1 = s1 \<and>
    (let s2 = wake_ack_waiter pid kind s1 in
       oneshots s2 r = Delivered (AckId pid) \<and> dm_get (pending_acks s2) pid = None \<and>
       (\<forall>q. q \<noteq> r \<longrightarrow> oneshots s2 q = oneshots s1 q) \<and> wake_ack_waiter pid kind s2 = s2)"
proof -
  obtain slot where slot: "dm_get (pending_acks s1) pid = Some slot" "parked_kind slot = Some kind"
      "slot_sender slot = r"
    using publish_ack.park_slot [OF assms(1), of pid kind] assms(2) by auto
  have "oneshots s1 r = Waiting"
    using publish_ack.parked_waits [OF assms(1), of pid kind] assms(2) by simp
  moreover have "wake_ack_waiter pid other s1 = s1" if "other \<noteq> kind" for other
    using publish_ack.wake_other [of s1 pid other] slot that by auto
  moreover have "wake_suback_waiter pid codes s1 = s1"
    using suback.wake_other [of s1 pid codes] slot by (cases slot) auto
  moreover have "wake_unsuback_waiter pid s1 = s1"
    using unsuback.wake_other [of s1 pid] slot by (cases slot) auto
  ultimately show ?thesis
    using publish_ack.wake_delivers [OF slot(1,2)] publish_ack.wake_twice slot(3) by (auto simp: Let_def)
qed

theorem ack_reaches_its_waiter_witness:
  "park_publish_ack_waiter 7 KPubrec session_new = (0, snd (park_publish_ack_waiter 7 KPubrec session_new)) \<and>
   wake_ack_waiter 7 KPuback (snd (park_publish_ack_waiter 7 KPubrec session_new)) =
     snd (park_publish_ack_waiter 7 KPubrec session_new) \<and>
   oneshots (wake_ack_waiter 7 KPubrec (snd (park_publish_ack_waiter 7 KPubrec session_new))) 0 =
     Delivered (AckId 7)"
proof -
  have p: "park_publish_ack_waiter 7 KPubrec session_new =
      (0, snd (park_publish_ack_waiter 7 KPubrec session_new))"
    by (simp add: park_publish_ack_waiter_def oneshot_channel_def session_new_def)
  from ack_reaches_its_waiter [OF session_ok_new p] p show ?thesis by (auto simp: Let_def)
qed

text \<open>
  Whatever tasks do to a session, in any order and with any interleaving at the wakers' released
  guard, a receiver waits exactly when one slot of the table holds its sender: no request can wait
  for an acknowledgement that could no longer reach it.
\<close>

theorem no_orphaned_waiter:
  "let s = session_run ops session_new in
     (oneshots s r = Waiting \<longleftrightarrow>
        (\<exists>!e. e \<in> set (pending_acks s) \<and> slot_sender (snd e) = r)) \<and>
     distinct (map fst (pending_acks s))"
proof -
  define s where "s = session_run ops session_new"
  have ok: "session_ok s" unfolding s_def by (rule session_ok_run [OF session_ok_new])
  have "r \<in> senders s \<longleftrightarrow> (\<exists>!e. e \<in> set (pending_acks s) \<and> slot_sender (snd e) = r)"
    using session_okD(4) [OF ok] unfolding senders_def inj_on_def image_iff by metis
  with session_okD(1,5) [OF ok] show ?thesis
    by (simp add: dm_wf_def Let_def flip: s_def)
qed

text \<open>
  Closing a session resolves everybody. After any history, abandoning leaves no receiver
  waiting; those that had not been answered see the sender gone, those that had keep their answer;
  and the three tables are empty.
\<close>

theorem abandon_resolves_every_waiter:
  "let s = session_run ops session_new; a = abandon s in
     oneshots a r = (if oneshots s r = Waiting then SenderDropped else oneshots s r) \<and>
     oneshots a r \<noteq> Waiting \<and>
     pending_acks a = [] \<and> qos2_recv a = [] \<and> outbound_inflight a = [] \<and>
     pkt_counter a = pkt_counter s \<and> bind a = bind s"
  using oneshots_abandon [OF session_ok_run [OF session_ok_new, of ops], of r]
  by (simp add: Let_def abandon_def)

text \<open>
  A QoS 2 publish is released exactly once. Once it is stashed under an id, and whatever happens
  to the session short of closing it or using that id, the first PUBREL for the id gets it and every
  later one gets nothing.
\<close>

theorem qos2_released_exactly_once:
  assumes "list_all (spares_qos2 pid) before" and "list_all (spares_qos2 pid) after"
  shows "let s1 = session_run before (stash_qos2_publish pid p s);
             (first, s2) = take_qos2_publish pid s1;
             (again, s3) = take_qos2_publish pid (session_run after s2)
         in first = Some p \<and> again = None"
  using spares_qos2_run [OF assms(1)] spares_qos2_run [OF assms(2)]
  by (simp add: take_qos2_publish_def stash_qos2_publish_def Let_def)

theorem qos2_released_exactly_once_witness:
  "let p = \<lparr>inc_topic = ''t'', inc_payload = [1], inc_qos = ExactlyOnce, inc_retain = False,
       inc_dup = False, inc_packet_id = Some 5\<rparr>;
       ops = [OpAllocate, OpStash 6 p, OpTake 6, OpParkSuback 5];
       s1 = session_run ops (stash_qos2_publish 5 p session_new);
       (first, s2) = take_qos2_publish 5 s1;
       (again, s3) = take_qos2_publish 5 (session_run ops s2)
   in first = Some p \<and> again = None"
  unfolding Let_def by (rule qos2_released_exactly_once [unfolded Let_def]) simp_all

text \<open>
  C33: the first 65535 packet ids of a session are the numbers 1, 2, \<dots>, 65535: never the reserved
  zero, and pairwise distinct. No allocation of any session ever returns zero.
\<close>

theorem packet_ids_distinct:
  assumes "n \<le> 65535"
  shows "allocate_ids n session_new = map word_of_nat [1..<Suc n] \<and>
    distinct (allocate_ids n session_new) \<and> 0 \<notin> set (allocate_ids n session_new) \<and>
    fst (allocate_packet_id s) \<noteq> 0"
proof -
  have eq: "allocate_ids n session_new = map word_of_nat [1..<Suc n]"
    using assms by (intro nth_equalityI) (simp_all add: nth_fresh_ids del: upt_Suc)
  have "inj_on (word_of_nat :: nat \<Rightarrow> u16) {1..<Suc n}"
    using assms by (intro inj_onI) (simp add: word_of_nat_inj_u16)
  then have "distinct (allocate_ids n session_new)"
    unfolding eq distinct_map by (simp del: upt_Suc)
  moreover have "0 \<notin> set (allocate_ids n session_new)"
  proof
    assume "0 \<in> set (allocate_ids n session_new)"
    then obtain k where "1 \<le> k" "k < Suc n" "(word_of_nat k :: u16) = 0"
      unfolding eq by (auto simp del: upt_Suc)
    with assms word_of_nat_nonzero_u16 [of k] show False by simp
  qed
  ultimately show ?thesis using eq by simp
qed

theorem packet_ids_distinct_witness:
  "(3 :: nat) \<le> 65535 \<and> allocate_ids 3 session_new = [1, 2, 3] \<and>
   distinct (allocate_ids 3 session_new)"
  using packet_ids_distinct [of 3] by (simp add: upt_rec)

text \<open>
  At the wrap-around the counter hands out the same id to two calls in a row. The allocation
  after 65535 takes the counter to zero and returns 1 in its place, and the next one returns 1
  again.
\<close>

theorem packet_id_repeats_at_wrap:
  assumes "pkt_counter s = 65535"
  shows "let (i, s1) = allocate_packet_id s; (j, s2) = allocate_packet_id s1 in i = 1 \<and> j = 1"
  using assms by (simp add: allocate_packet_id_def Let_def)

theorem packet_id_repeats_at_wrap_witness:
  "let (i, s1) = allocate_packet_id (session_new\<lparr>pkt_counter := 65535\<rparr>);
       (j, s2) = allocate_packet_id s1 in i = 1 \<and> j = 1"
  by (rule packet_id_repeats_at_wrap) simp

text \<open>
  Parking under an id that already has a waiter drops that waiter's sender: the first request
  resolves at once, as if the channel had closed, instead of running into its timeout.
\<close>

theorem park_collision_closes_first_waiter:
  assumes "session_ok s" and "park_publish_ack_waiter pid k1 s = (r1, s1)"
    and "park_publish_ack_waiter pid k2 s1 = (r2, s2)"
  shows "oneshots s1 r1 = Waiting \<and> oneshots s2 r1 = SenderDropped \<and> oneshots s2 r2 = Waiting"
proof -
  have ok: "session_ok s1" using session_ok_parks(1) [OF assms(1), of pid k1] assms(2) by simp
  obtain slot where slot: "dm_get (pending_acks s1) pid = Some slot" "slot_sender slot = r1"
    using publish_ack.park_slot [OF assms(1), of pid k1] assms(2) by auto
  from sender_fresh [OF ok slot(1)] slot have "r1 \<noteq> next_oneshot s1" "oneshots s1 r1 = Waiting"
    by simp_all
  with assms(3) slot ok show ?thesis
    by (auto simp: parks_eq park_slot_eq cancel_ack_waiter_def drop_sender_def)
qed

theorem park_collision_closes_first_waiter_witness:
  "oneshots (snd (park_publish_ack_waiter 1 KPuback
      (snd (park_publish_ack_waiter 1 KPuback session_new)))) 0 = SenderDropped"
proof -
  define s1 where "s1 = snd (park_publish_ack_waiter 1 KPuback session_new)"
  have p1: "park_publish_ack_waiter 1 KPuback session_new = (0, s1)"
    by (simp add: s1_def park_publish_ack_waiter_def oneshot_channel_def session_new_def)
  have "park_publish_ack_waiter 1 KPuback s1 = (1, snd (park_publish_ack_waiter 1 KPuback s1))"
    by (simp add: s1_def park_publish_ack_waiter_def oneshot_channel_def insert_slot_def session_new_def)
  from park_collision_closes_first_waiter [OF session_ok_new p1 this] show ?thesis
    by (simp add: s1_def)
qed

end
