(* ===== verification/Mqtt_Channel.thy ===== *)
theory Mqtt_Channel
  imports Mqtt_Session Mqtt_Encode
begin

text \<open>
  One connection, \<^verbatim>\<open>src/src/channel.rs\<close>: the handle that every task holds a clone of, and the writer
  actor that alone writes to the wire. All the mutable parts of a handle are behind \<^verbatim>\<open>Arc\<close>s that
  \<^verbatim>\<open>Clone\<close> shares, and the rest is constant, so the clones of a handle are one record.

  The actor and the tasks that hold handles run concurrently; \<open>chan_step\<close> is the step relation of
  the connection, with one step per atomic action of either.
\<close>

section \<open>State\<close>

text \<open>\<^verbatim>\<open>std::net::SocketAddr\<close>: the address octets and the port.\<close>

datatype socket_addr = SocketAddr "u8 list" u16

text \<open>\<^verbatim>\<open>hotaru_core::protocol::ProtocolRole\<close>, whose two variants \<open>handle\<close> matches exhaustively.\<close>

datatype protocol_role = ServerRole | ClientRole

datatype write_cmd = CmdPacket packet | CmdPublish publish_packet | CmdFlush | CmdShutdown

text \<open>
  Where the writer actor is. \<open>Selecting b\<close>: in the \<^verbatim>\<open>select!\<close>, with a \<^verbatim>\<open>notified()\<close> future that has
  (\<open>b\<close>) or has not been fired; \<open>Writing c\<close>: in the body of the receive arm, where no such future
  exists; \<open>Stopping\<close>: past the loop; \<open>Stopped\<close>: returned, the receiving half of the queue dropped.
\<close>

datatype actor = Selecting bool | Writing write_cmd | Stopping | Stopped

text \<open>
  \<open>ch_loop\<close> is the \<^verbatim>\<open>notified()\<close> future of the connection's handler loop: \<open>None\<close> while the loop
  holds none, otherwise whether it has been fired. \<open>ch_handles\<close> tells whether any handle, and with it
  a sending half of the command queue, is still alive.
\<close>

record channel =
  ch_reader :: "reader option"
  ch_cmds :: "write_cmd list"
  ch_connection_id :: u64
  ch_role :: protocol_role
  ch_local_addr :: "socket_addr option"
  ch_remote_addr :: "socket_addr option"
  ch_session :: session
  ch_open :: bool
  ch_loop :: "bool option"
  ch_actor :: actor
  ch_writer :: wire_writer
  ch_handles :: bool

section \<open>Operations on a handle\<close>

text \<open>The global connection counter: \<^verbatim>\<open>fetch_add(1)\<close> returns the old value.\<close>

definition next_connection_id :: "u64 \<Rightarrow> u64 \<times> u64" where
  "next_connection_id counter = (counter, counter + 1)"

definition channel_new ::
  "reader \<Rightarrow> wire_writer \<Rightarrow> socket_addr option \<times> socket_addr option \<Rightarrow> protocol_role \<Rightarrow> u64 \<Rightarrow>
   channel \<times> u64" where
  "channel_new rd wr meta role counter =
     (let (connection_id, counter') = next_connection_id counter in
      (\<lparr>ch_reader = Some rd, ch_cmds = [], ch_connection_id = connection_id, ch_role = role,
        ch_local_addr = fst meta, ch_remote_addr = snd meta, ch_session = session_new,
        ch_open = True, ch_loop = None, ch_actor = Selecting False, ch_writer = wr,
        ch_handles = True\<rparr>, counter'))"

definition is_open :: "channel \<Rightarrow> bool" where
  "is_open ch = ch_open ch"

text \<open>
  \<^verbatim>\<open>Notify::notify_waiters\<close> fires the \<^verbatim>\<open>notified()\<close> futures that exist and leaves nothing behind for
  later ones.
\<close>

fun notify_actor :: "actor \<Rightarrow> actor" where
  "notify_actor (Selecting b) = Selecting True"
| "notify_actor a = a"

definition notify_waiters :: "channel \<Rightarrow> channel" where
  "notify_waiters ch =
     ch\<lparr>ch_actor := notify_actor (ch_actor ch), ch_loop := map_option (\<lambda>_. True) (ch_loop ch)\<rparr>"

definition close :: "channel \<Rightarrow> channel" where
  "close ch =
     (if \<not> ch_open ch then ch
      else
        (let ch = ch\<lparr>ch_open := False\<rparr>;
             ch = notify_waiters ch
         in ch\<lparr>ch_session := abandon (ch_session ch)\<rparr>))"

definition take_reader :: "channel \<Rightarrow> reader option \<times> channel" where
  "take_reader ch = (ch_reader ch, ch\<lparr>ch_reader := None\<rparr>)"

definition client_id :: "channel \<Rightarrow> rstr option" where
  "client_id ch = bind_get_client_id (ch_session ch)"

definition keep_alive :: "channel \<Rightarrow> u16 option" where
  "keep_alive ch = bind_get_keep_alive (ch_session ch)"

text \<open>\<^verbatim>\<open>UnboundedSender::send\<close> fails exactly when the receiver has been dropped.\<close>

definition cmd_send :: "write_cmd \<Rightarrow> channel \<Rightarrow> unit result \<times> channel" where
  "cmd_send c ch =
     (if ch_actor ch = Stopped then (Err ChannelClosed, ch)
      else (Ok (), ch\<lparr>ch_cmds := ch_cmds ch @ [c]\<rparr>))"

definition send_packet :: "packet \<Rightarrow> channel \<Rightarrow> unit result \<times> channel" where
  "send_packet p ch = cmd_send (CmdPacket p) ch"

definition send_publish :: "publish_packet \<Rightarrow> channel \<Rightarrow> unit result \<times> channel" where
  "send_publish p ch = cmd_send (CmdPublish p) ch"

text \<open>An operation on the session of a channel, through any of its handles.\<close>

definition with_session :: "(session \<Rightarrow> session) \<Rightarrow> channel \<Rightarrow> channel" where
  "with_session f ch = ch\<lparr>ch_session := f (ch_session ch)\<rparr>"

section \<open>The writer actor\<close>

text \<open>The body of the receive arm: the actor's next place and the writer after it.\<close>

fun perform_write :: "write_cmd \<Rightarrow> wire_writer \<Rightarrow> actor \<times> wire_writer" where
  "perform_write (CmdPacket p) w =
     (case write_packet p w of (Ok _, w') \<Rightarrow> (Selecting False, w') | (_, w') \<Rightarrow> (Stopping, w'))"
| "perform_write (CmdPublish p) w =
     (case write_publish_packet p w of (Ok _, w') \<Rightarrow> (Selecting False, w') | (_, w') \<Rightarrow> (Stopping, w'))"
| "perform_write CmdFlush w = (Selecting False, w)"
| "perform_write CmdShutdown w = (Stopping, w)"

text \<open>
  A step of the connection. The label says what it did: the actor takes a command off the queue,
  finishes writing it, leaves the loop, returns; some task that holds a handle sends a command,
  closes the channel, or uses the session; the last handle is dropped. In the \<^verbatim>\<open>select!\<close> either
  ready arm may win.
\<close>

datatype chan_label = Took write_cmd | Wrote write_cmd | LeftLoop | Returned | Enqueued write_cmd | Closed
  | Used session_op | Released

inductive chan_step :: "channel \<Rightarrow> chan_label \<Rightarrow> channel \<Rightarrow> bool" where
  step_recv:
    "ch_actor ch = Selecting b \<Longrightarrow> ch_cmds ch = c # cs \<Longrightarrow>
     chan_step ch (Took c) (ch\<lparr>ch_actor := Writing c, ch_cmds := cs\<rparr>)"
| step_write:
    "ch_actor ch = Writing c \<Longrightarrow> perform_write c (ch_writer ch) = (a, w) \<Longrightarrow>
     chan_step ch (Wrote c) (ch\<lparr>ch_actor := a, ch_writer := w\<rparr>)"
| step_no_sender:
    "ch_actor ch = Selecting b \<Longrightarrow> ch_cmds ch = [] \<Longrightarrow> \<not> ch_handles ch \<Longrightarrow>
     chan_step ch LeftLoop (ch\<lparr>ch_actor := Stopping\<rparr>)"
| step_shutdown:
    "ch_actor ch = Selecting True \<Longrightarrow> chan_step ch LeftLoop (ch\<lparr>ch_actor := Stopping\<rparr>)"
| step_return:
    "ch_actor ch = Stopping \<Longrightarrow>
     chan_step ch Returned (ch\<lparr>ch_actor := Stopped, ch_open := False, ch_cmds := []\<rparr>)"
| step_send:
    "ch_handles ch \<Longrightarrow> cmd_send c ch = (Ok (), ch') \<Longrightarrow> chan_step ch (Enqueued c) ch'"
| step_close: "ch_handles ch \<Longrightarrow> chan_step ch Closed (close ch)"
| step_session: "ch_handles ch \<Longrightarrow> chan_step ch (Used op) (with_session (session_step op) ch)"
| step_release: "chan_step ch Released (ch\<lparr>ch_handles := False\<rparr>)"

inductive chan_run :: "channel \<Rightarrow> chan_label list \<Rightarrow> channel \<Rightarrow> bool" where
  run_nil: "chan_run ch [] ch"
| run_snoc: "chan_run ch ls ch' \<Longrightarrow> chan_step ch' l ch'' \<Longrightarrow> chan_run ch (ls @ [l]) ch''"

inductive_cases chan_stepE: "chan_step ch l ch'"

section \<open>What a run did\<close>

fun enqueued_of :: "chan_label \<Rightarrow> write_cmd list" where
  "enqueued_of (Enqueued c) = [c]"
| "enqueued_of _ = []"

fun written_of :: "chan_label \<Rightarrow> write_cmd list" where
  "written_of (Wrote c) = [c]"
| "written_of _ = []"

definition enqueued :: "chan_label list \<Rightarrow> write_cmd list" where
  "enqueued ls = concat (map enqueued_of ls)"

definition written :: "chan_label list \<Rightarrow> write_cmd list" where
  "written ls = concat (map written_of ls)"

fun in_hand :: "actor \<Rightarrow> write_cmd list" where
  "in_hand (Writing c) = [c]"
| "in_hand _ = []"

text \<open>The bytes a command puts on a wire that accepts everything.\<close>

fun cmd_bytes :: "write_cmd \<Rightarrow> u8 list" where
  "cmd_bytes (CmdPacket p) = (case encode_packet p of Ok bs \<Rightarrow> bs | _ \<Rightarrow> [])"
| "cmd_bytes (CmdPublish p) = (case encode_packet (Publish p) of Ok bs \<Rightarrow> bs | _ \<Rightarrow> [])"
| "cmd_bytes _ = []"

section \<open>Lemmas\<close>

lemma labels_snoc [simp]:
  "enqueued (ls @ [l]) = enqueued ls @ enqueued_of l" "written (ls @ [l]) = written ls @ written_of l"
  by (simp_all add: enqueued_def written_def)

lemma labels_Nil [simp]: "enqueued [] = []" "written [] = []"
  by (simp_all add: enqueued_def written_def)

lemma perform_write_cases:
  "perform_write c w = (a, w') \<Longrightarrow> (a = Selecting False \<or> a = Stopping)"
  by (cases c) (auto split: prod.splits outcome.splits)

lemma perform_write_bytes:
  assumes "perform_write c w = (a, w')" and "wr_limit w = None"
  shows "wr_bytes w' = wr_bytes w @ cmd_bytes c \<and> wr_limit w' = None"
  using assms
  by (cases c)
    (auto simp: write_publish_packet_eq_write_packet write_packet_def write_all_def
      split: prod.splits outcome.splits)

lemma close_simps [simp]:
  "\<not> ch_open (close ch)" "ch_cmds (close ch) = ch_cmds ch" "ch_writer (close ch) = ch_writer ch"
  "ch_connection_id (close ch) = ch_connection_id ch" "ch_handles (close ch) = ch_handles ch"
  "ch_reader (close ch) = ch_reader ch" "ch_role (close ch) = ch_role ch"
  "ch_remote_addr (close ch) = ch_remote_addr ch"
  by (simp_all add: close_def notify_waiters_def Let_def)

lemma close_session:
  "ch_session (close ch) = (if ch_open ch then abandon (ch_session ch) else ch_session ch)"
  by (simp add: close_def notify_waiters_def Let_def)

lemma close_idem [simp]: "close (close ch) = close ch"
  by (simp add: close_def [of "close ch"])

lemma notify_actor_simps [simp]:
  "notify_actor a = Stopped \<longleftrightarrow> a = Stopped" "notify_actor a = Stopping \<longleftrightarrow> a = Stopping"
  "in_hand (notify_actor a) = in_hand a"
  by (cases a; simp)+

lemma close_actor [simp]:
  "ch_actor (close ch) = Stopped \<longleftrightarrow> ch_actor ch = Stopped" "in_hand (ch_actor (close ch)) = in_hand (ch_actor ch)"
  by (simp_all add: close_def notify_waiters_def Let_def)

lemma with_session_simps [simp]:
  "ch_open (with_session f ch) = ch_open ch" "ch_cmds (with_session f ch) = ch_cmds ch"
  "ch_actor (with_session f ch) = ch_actor ch" "ch_writer (with_session f ch) = ch_writer ch"
  "ch_session (with_session f ch) = f (ch_session ch)"
  "ch_connection_id (with_session f ch) = ch_connection_id ch"
  "ch_handles (with_session f ch) = ch_handles ch" "ch_reader (with_session f ch) = ch_reader ch"
  "ch_role (with_session f ch) = ch_role ch" "ch_remote_addr (with_session f ch) = ch_remote_addr ch"
  by (simp_all add: with_session_def)

text \<open>
  The shape of a connection's state: an open flag that is down once the actor has returned, and a
  session that keeps its own invariant.
\<close>

definition channel_ok :: "channel \<Rightarrow> bool" where
  "channel_ok ch \<longleftrightarrow> session_ok (ch_session ch) \<and> (ch_actor ch = Stopped \<longrightarrow> \<not> ch_open ch \<and> ch_cmds ch = [])"

lemma channel_ok_new [inv_intros]: "channel_ok (fst (channel_new rd wr meta role counter))"
  by (simp add: channel_ok_def channel_new_def next_connection_id_def session_ok_new)

lemma channel_ok_close [inv_intros]: "channel_ok ch \<Longrightarrow> channel_ok (close ch)"
  by (auto simp: channel_ok_def close_session session_ok_abandon)

lemma channel_ok_cmd_send [inv_intros]: "channel_ok ch \<Longrightarrow> channel_ok (snd (cmd_send c ch))"
  by (simp add: channel_ok_def cmd_send_def)

lemma channel_ok_step: "chan_step ch l ch' \<Longrightarrow> channel_ok ch \<Longrightarrow> channel_ok ch'"
proof (induction rule: chan_step.induct)
  case (step_send ch c ch')
  then show ?case using channel_ok_cmd_send [of ch c] by simp
next
  case (step_write ch c a w)
  then show ?case using perform_write_cases [of c] by (auto simp: channel_ok_def)
qed (auto simp: channel_ok_close, auto simp: channel_ok_def session_ok_step)

lemma channel_ok_run: "chan_run ch ls ch' \<Longrightarrow> channel_ok ch \<Longrightarrow> channel_ok ch'"
  by (induction rule: chan_run.induct) (auto dest: channel_ok_step)

text \<open>The order of the queue: what was accepted is what was written, what is in hand, what waits.\<close>

lemma queue_order_step:
  assumes "chan_step ch l ch'" and "enq = wrt @ in_hand (ch_actor ch) @ ch_cmds ch @ lost"
    and "lost = [] \<or> ch_actor ch = Stopped"
  shows "\<exists>lost'. enq @ enqueued_of l = (wrt @ written_of l) @ in_hand (ch_actor ch') @ ch_cmds ch' @ lost'
    \<and> (lost' = [] \<or> ch_actor ch' = Stopped)"
  using assms
proof (cases rule: chan_step.cases)
  case (step_write c a w)
  with perform_write_cases [OF step_write(4)] assms(2,3) show ?thesis by auto
qed (auto simp: cmd_send_def split: if_splits)

lemma queue_order:
  "chan_run ch ls ch' \<Longrightarrow> ch_actor ch = Selecting False \<Longrightarrow> ch_cmds ch = [] \<Longrightarrow>
   \<exists>lost. enqueued ls = written ls @ in_hand (ch_actor ch') @ ch_cmds ch' @ lost
     \<and> (lost = [] \<or> ch_actor ch' = Stopped)"
proof (induction rule: chan_run.induct)
  case (run_snoc ch ls ch' l ch'')
  then show ?case using queue_order_step [OF run_snoc.hyps(2)] by fastforce
qed simp

lemma writer_bytes:
  "chan_run ch ls ch' \<Longrightarrow> wr_limit (ch_writer ch) = None \<Longrightarrow>
   wr_bytes (ch_writer ch') = wr_bytes (ch_writer ch) @ concat (map cmd_bytes (written ls)) \<and>
   wr_limit (ch_writer ch') = None"
proof (induction rule: chan_run.induct)
  case (run_snoc ch ls ch' l ch'')
  from run_snoc.hyps(2) run_snoc show ?case
    by (cases rule: chan_step.cases) (auto simp: cmd_send_def dest!: perform_write_bytes split: if_splits)
qed simp

lemma closed_stays_closed: "chan_run ch ls ch' \<Longrightarrow> \<not> ch_open ch \<Longrightarrow> \<not> ch_open ch'"
proof (induction rule: chan_run.induct)
  case (run_snoc ch ls ch' l ch'')
  from run_snoc.hyps(2) run_snoc show ?case
    by (cases rule: chan_step.cases) (auto simp: cmd_send_def split: if_splits)
qed simp

lemma stopped_is_final:
  "chan_run ch ls ch' \<Longrightarrow> ch_actor ch = Stopped \<Longrightarrow> ch_writer ch' = ch_writer ch \<and> ch_actor ch' = Stopped"
proof (induction rule: chan_run.induct)
  case (run_snoc ch ls ch' l ch'')
  from run_snoc.hyps(2) run_snoc show ?case
    by (cases rule: chan_step.cases) (auto simp: cmd_send_def split: if_splits)
qed simp

section \<open>Properties\<close>

text \<open>
  The wire carries the commands in the order they were accepted. In every run of a connection,
  however many tasks send and whenever it is closed, the commands written are a prefix of the
  commands accepted; while the actor lives nothing accepted is missing (the rest is in hand or in
  the queue); and on a wire that takes every byte, what it carries is the concatenation of the
  encodings of the commands written, none torn, none interleaved.
\<close>

theorem writer_keeps_order:
  assumes "chan_run (fst (channel_new rd wr meta role counter)) ls ch"
  shows "(\<exists>lost. enqueued ls = written ls @ in_hand (ch_actor ch) @ ch_cmds ch @ lost \<and>
      (ch_actor ch \<noteq> Stopped \<longrightarrow> lost = [])) \<and>
    (wr_limit wr = None \<longrightarrow> wr_bytes (ch_writer ch) = wr_bytes wr @ concat (map cmd_bytes (written ls)))"
  using queue_order [OF assms] writer_bytes [OF assms]
  by (auto simp: channel_new_def next_connection_id_def)

theorem writer_keeps_order_witness:
  "let ch = fst (channel_new \<lparr>rd_bytes = [], rd_end = Eof\<rparr> \<lparr>wr_bytes = [], wr_limit = None\<rparr> (None, None) ServerRole 1);
       p = CmdPacket Pingresp;
       q = CmdPacket Disconnect
   in (\<exists>ch'. chan_run ch [Enqueued p, Enqueued q, Took p, Wrote p] ch' \<and>
        wr_bytes (ch_writer ch') = [0xD0, 0x00] \<and> ch_cmds ch' = [q])"
proof -
  define ch where "ch = fst (channel_new \<lparr>rd_bytes = [], rd_end = Eof\<rparr> \<lparr>wr_bytes = [], wr_limit = None\<rparr>
    (None, None) ServerRole 1)"
  let ?p = "CmdPacket Pingresp" and ?q = "CmdPacket Disconnect"
  define ch' where "ch' = ch\<lparr>ch_cmds := [?q], ch_actor := Selecting False,
    ch_writer := \<lparr>wr_bytes = [0xD0, 0x00], wr_limit = None\<rparr>\<rparr>"
  have "chan_run ch ((([] @ [Enqueued ?p]) @ [Enqueued ?q]) @ [Took ?p]) (ch\<lparr>ch_cmds := [?q], ch_actor := Writing ?p\<rparr>)"
    by (rule run_snoc, rule run_snoc, rule run_snoc, rule run_nil)
      (auto simp: chan_step.simps cmd_send_def ch_def channel_new_def next_connection_id_def)
  moreover have "chan_step (ch\<lparr>ch_cmds := [?q], ch_actor := Writing ?p\<rparr>) (Wrote ?p) ch'"
    by (auto simp: chan_step.simps write_packet_def write_all_def ch'_def ch_def channel_new_def
        next_connection_id_def)
  ultimately have run: "chan_run ch [Enqueued ?p, Enqueued ?q, Took ?p, Wrote ?p] ch'"
    using run_snoc by fastforce
  from writer_keeps_order [OF run [unfolded ch_def]] have "wr_bytes (ch_writer ch') = [0xD0, 0x00]"
    by (simp add: written_def)
  with run show ?thesis unfolding Let_def ch_def [symmetric] by (intro exI [of _ ch']) (simp add: ch'_def)
qed

text \<open>
  C22: closing an open channel resolves everybody who waits on it, whatever happened before: no
  receiver of its session is waiting, the tables are empty, and no later run of the connection opens
  the channel again. Closing twice is closing once.
\<close>

theorem close_resolves_waiters:
  assumes "chan_run (fst (channel_new rd wr meta role counter)) ls ch" and "is_open ch"
  shows "oneshots (ch_session (close ch)) r \<noteq> Waiting \<and> pending_acks (ch_session (close ch)) = [] \<and>
    close (close ch) = close ch \<and> (\<forall>ls' ch'. chan_run (close ch) ls' ch' \<longrightarrow> \<not> is_open ch')"
proof -
  have "session_ok (ch_session ch)"
    using channel_ok_run [OF assms(1) channel_ok_new] by (simp add: channel_ok_def)
  then have "oneshots (ch_session (close ch)) r \<noteq> Waiting"
    using assms(2) oneshots_abandon [of "ch_session ch" r] by (simp add: close_session is_open_def)
  moreover have "pending_acks (ch_session (close ch)) = []"
    using assms(2) by (simp add: close_session is_open_def abandon_def)
  ultimately show ?thesis using closed_stays_closed [of "close ch"] by (auto simp: is_open_def)
qed

theorem close_resolves_waiters_witness:
  "let ch = fst (channel_new \<lparr>rd_bytes = [], rd_end = Eof\<rparr> \<lparr>wr_bytes = [], wr_limit = None\<rparr> (None, None) ServerRole 1);
       ch1 = with_session (session_step (OpParkSuback 3)) ch
   in oneshots (ch_session ch1) 0 = Waiting \<and> oneshots (ch_session (close ch1)) 0 \<noteq> Waiting"
proof -
  define ch where "ch = fst (channel_new \<lparr>rd_bytes = [], rd_end = Eof\<rparr> \<lparr>wr_bytes = [], wr_limit = None\<rparr>
    (None, None) ServerRole 1)"
  define ch1 where "ch1 = with_session (session_step (OpParkSuback 3)) ch"
  have h: "ch_handles ch" "ch_session ch = session_new" "ch_open ch"
    by (simp_all add: ch_def channel_new_def next_connection_id_def)
  have run: "chan_run ch ([] @ [Used (OpParkSuback 3)]) ch1"
    unfolding ch1_def by (rule run_snoc [OF run_nil step_session]) (rule h)
  have w: "oneshots (ch_session ch1) 0 = Waiting"
    using h by (simp add: ch1_def park_suback_waiter_def oneshot_channel_def insert_slot_def session_new_def)
  have "oneshots (ch_session (close ch1)) 0 \<noteq> Waiting"
    using close_resolves_waiters [OF run [unfolded ch_def], of 0] h(3) by (simp add: is_open_def ch1_def)
  with w show ?thesis by (simp add: Let_def ch1_def ch_def)
qed

text \<open>
  C40: when the writer actor goes first, nobody is resolved. If a write fails, the actor returns and
  takes the open flag down itself without touching the session; the close that follows finds the flag
  already down and does nothing, so a request that was waiting keeps waiting until its own timeout.
\<close>

theorem writer_failure_strands_waiters:
  assumes "ch_actor ch = Writing c" and "fst (perform_write c (ch_writer ch)) = Stopping"
    and "oneshots (ch_session ch) r = Waiting"
  shows "\<exists>ch'. chan_run ch [Wrote c, Returned] ch' \<and> \<not> is_open ch' \<and> close ch' = ch' \<and>
    oneshots (ch_session (close ch')) r = Waiting"
proof -
  obtain w where w: "perform_write c (ch_writer ch) = (Stopping, w)"
    using assms(2) by (cases "perform_write c (ch_writer ch)") simp
  define ch1 where "ch1 = ch\<lparr>ch_actor := Stopping, ch_writer := w\<rparr>"
  define ch2 where "ch2 = ch1\<lparr>ch_actor := Stopped, ch_open := False, ch_cmds := []\<rparr>"
  have "chan_run ch (([] @ [Wrote c]) @ [Returned]) ch2"
    by (rule run_snoc, rule run_snoc, rule run_nil)
      (auto simp: chan_step.simps assms w ch1_def ch2_def)
  then have "chan_run ch [Wrote c, Returned] ch2" by simp
  moreover have "\<not> is_open ch2" "close ch2 = ch2" "oneshots (ch_session ch2) r = Waiting"
    using assms(3) by (simp_all add: ch2_def ch1_def is_open_def close_def)
  ultimately show ?thesis by auto
qed

theorem writer_failure_strands_waiters_witness:
  "let ch = fst (channel_new \<lparr>rd_bytes = [], rd_end = Eof\<rparr> \<lparr>wr_bytes = [], wr_limit = Some 0\<rparr> (None, None) ClientRole 1);
       ch1 = (with_session (session_step (OpParkSuback 3)) ch)\<lparr>ch_actor := Writing (CmdPacket Pingreq)\<rparr>
   in \<exists>ch'. chan_run ch1 [Wrote (CmdPacket Pingreq), Returned] ch' \<and> close ch' = ch' \<and>
        oneshots (ch_session (close ch')) 0 = Waiting"
proof -
  define ch where "ch = fst (channel_new \<lparr>rd_bytes = [], rd_end = Eof\<rparr> \<lparr>wr_bytes = [], wr_limit = Some 0\<rparr>
    (None, None) ClientRole 1)"
  define ch1 where
    "ch1 = (with_session (session_step (OpParkSuback 3)) ch)\<lparr>ch_actor := Writing (CmdPacket Pingreq)\<rparr>"
  have "ch_actor ch1 = Writing (CmdPacket Pingreq)" by (simp add: ch1_def)
  moreover have "fst (perform_write (CmdPacket Pingreq) (ch_writer ch1)) = Stopping"
    by (simp add: ch1_def ch_def channel_new_def next_connection_id_def write_packet_def write_all_def)
  moreover have "oneshots (ch_session ch1) 0 = Waiting"
    by (simp add: ch1_def ch_def channel_new_def next_connection_id_def park_suback_waiter_def
        oneshot_channel_def insert_slot_def session_new_def)
  ultimately show ?thesis
    using writer_failure_strands_waiters [of ch1 "CmdPacket Pingreq" 0] by (auto simp: Let_def ch1_def ch_def)
qed

text \<open>
  Closing does not drain the queue. With the actor at its \<^verbatim>\<open>select!\<close> and commands queued, a close
  makes the shutdown arm ready at once; the actor may leave through it, and the queued commands are
  then never written, in any continuation.
\<close>

theorem close_may_drop_queued_commands:
  assumes "ch_actor ch = Selecting b" and "ch_open ch" and "ch_handles ch"
  shows "\<exists>ch'. chan_run ch [Closed, LeftLoop, Returned] ch' \<and> ch_writer ch' = ch_writer ch \<and>
    (\<forall>ls ch''. chan_run ch' ls ch'' \<longrightarrow> ch_writer ch'' = ch_writer ch)"
proof -
  define ch1 where "ch1 = (close ch)\<lparr>ch_actor := Stopping\<rparr>"
  define ch2 where "ch2 = ch1\<lparr>ch_actor := Stopped, ch_open := False, ch_cmds := []\<rparr>"
  have "ch_actor (close ch) = Selecting True"
    using assms by (simp add: close_def notify_waiters_def)
  then have "chan_run ch ((([] @ [Closed]) @ [LeftLoop]) @ [Returned]) ch2"
    by (intro run_snoc [OF run_snoc [OF run_snoc [OF run_nil]]])
      (auto simp: chan_step.simps assms ch1_def ch2_def)
  then have "chan_run ch [Closed, LeftLoop, Returned] ch2" by simp
  moreover have "ch_writer ch'' = ch_writer ch2" if "chan_run ch2 ls ch''" for ls ch''
    using stopped_is_final [OF that] by (simp add: ch2_def)
  ultimately show ?thesis by (auto simp: ch2_def ch1_def)
qed

theorem close_may_drop_queued_commands_witness:
  "let ch = (fst (channel_new \<lparr>rd_bytes = [], rd_end = Eof\<rparr> \<lparr>wr_bytes = [], wr_limit = None\<rparr> (None, None) ServerRole 1))
         \<lparr>ch_cmds := [CmdPacket (Connack \<lparr>ack_session_present = False, ack_return_code = NotAuthorized\<rparr>)]\<rparr>
   in \<exists>ch'. chan_run ch [Closed, LeftLoop, Returned] ch' \<and>
        (\<forall>ls ch''. chan_run ch' ls ch'' \<longrightarrow> wr_bytes (ch_writer ch'') = [])"
proof -
  define ch where "ch = (fst (channel_new \<lparr>rd_bytes = [], rd_end = Eof\<rparr> \<lparr>wr_bytes = [], wr_limit = None\<rparr> (None, None) ServerRole 1))
         \<lparr>ch_cmds := [CmdPacket (Connack \<lparr>ack_session_present = False, ack_return_code = NotAuthorized\<rparr>)]\<rparr>"
  have "ch_actor ch = Selecting False" "ch_open ch" "ch_handles ch" "wr_bytes (ch_writer ch) = []"
    by (simp_all add: ch_def channel_new_def next_connection_id_def)
  with close_may_drop_queued_commands [of ch False] show ?thesis
    unfolding Let_def ch_def [symmetric] by (metis)
qed

end
