(* ===== verification/Mqtt_Topic.thy ===== *)
theory Mqtt_Topic
  imports Mqtt_Packet
begin

text \<open>
  Topic names and topic filters, \<^verbatim>\<open>src/src/topic.rs\<close>: the two parsers, the two allocation-free
  validators and the way back from a route pattern to a wire filter. The declarative grammar
  (\<open>filter_ok\<close>, \<open>topic_ok\<close>) says which strings they accept.
\<close>

section \<open>Definitions\<close>

text \<open>
  \<^verbatim>\<open>hotaru_core::url::PathPattern\<close>, as far as the exhaustive match in \<open>path_to_wire_filter\<close> shows it.
  The payload of \<^verbatim>\<open>Regex\<close> is never looked at and stays a type parameter.
\<close>

datatype 'r path_pattern = Literal rstr | Any | Regex 'r | AnyPath

definition MAX_TOPIC_LEN :: usize where
  "MAX_TOPIC_LEN = 65535"

definition segments_of :: "rstr \<Rightarrow> rstr list" where
  "segments_of s = split_on (CHR ''/'') s"

text \<open>The guard \<^verbatim>\<open>s.contains('+') || s.contains('#')\<close>.\<close>

definition has_wildcard :: "rstr \<Rightarrow> bool" where
  "has_wildcard s \<longleftrightarrow> CHR ''+'' \<in> set s \<or> CHR ''#'' \<in> set s"

text \<open>The loops over \<^verbatim>\<open>segments.iter().enumerate()\<close>; \<open>patterns\<close> is the vector built so far.\<close>

fun parse_filter_loop :: "usize \<Rightarrow> usize \<Rightarrow> 'r path_pattern list \<Rightarrow> rstr list \<Rightarrow> 'r path_pattern list result" where
  "parse_filter_loop last_idx i patterns [] = Ok patterns"
| "parse_filter_loop last_idx i patterns (seg # segs) =
     (if seg = ''+'' then parse_filter_loop last_idx (Suc i) (patterns @ [Any]) segs
      else if seg = ''#'' then
        (if i \<noteq> last_idx then Err (Protocol HashWildcardNotTerminal)
         else parse_filter_loop last_idx (Suc i) (patterns @ [AnyPath]) segs)
      else if has_wildcard seg then Err (Protocol WildcardMixedWithLiteral)
      else parse_filter_loop last_idx (Suc i) (patterns @ [Literal seg]) segs)"

definition parse_subscribe_filter :: "rstr \<Rightarrow> 'r path_pattern list result" where
  "parse_subscribe_filter flt =
     (if flt = [] then Err (Protocol EmptyTopic)
      else if length flt > MAX_TOPIC_LEN then Err (Protocol TopicTooLong)
      else
        (let segments = segments_of flt;
             last_idx = length segments - 1
         in parse_filter_loop last_idx 0 [] segments))"

fun parse_topic_loop :: "'r path_pattern list \<Rightarrow> rstr list \<Rightarrow> 'r path_pattern list result" where
  "parse_topic_loop patterns [] = Ok patterns"
| "parse_topic_loop patterns (seg # segs) =
     (if has_wildcard seg then Err (Protocol WildcardInPublishTopic)
      else parse_topic_loop (patterns @ [Literal seg]) segs)"

definition parse_publish_topic :: "rstr \<Rightarrow> 'r path_pattern list result" where
  "parse_publish_topic topic =
     (if topic = [] then Err (Protocol EmptyTopic)
      else if length topic > MAX_TOPIC_LEN then Err (Protocol TopicTooLong)
      else parse_topic_loop [] (segments_of topic))"

fun pattern_to_wire :: "'r path_pattern \<Rightarrow> rstr" where
  "pattern_to_wire (Literal s) = s"
| "pattern_to_wire Any = ''+''"
| "pattern_to_wire (Regex _) = ''+''"
| "pattern_to_wire AnyPath = ''#''"

definition path_to_wire_filter :: "'r path_pattern list \<Rightarrow> rstr" where
  "path_to_wire_filter path = join_with ''/'' (map pattern_to_wire path)"

fun validate_filter_loop :: "usize \<Rightarrow> usize \<Rightarrow> rstr list \<Rightarrow> unit result" where
  "validate_filter_loop last_idx i [] = Ok ()"
| "validate_filter_loop last_idx i (seg # segs) =
     (if seg = ''+'' then validate_filter_loop last_idx (Suc i) segs
      else if seg = ''#'' then
        (if i \<noteq> last_idx then Err (Protocol HashWildcardNotTerminal)
         else validate_filter_loop last_idx (Suc i) segs)
      else if has_wildcard seg then Err (Protocol WildcardMixedWithLiteral)
      else validate_filter_loop last_idx (Suc i) segs)"

definition validate_subscribe_filter :: "rstr \<Rightarrow> unit result" where
  "validate_subscribe_filter flt =
     (if flt = [] then Err (Protocol EmptyTopic)
      else if length flt > MAX_TOPIC_LEN then Err (Protocol TopicTooLong)
      else
        (let segments = segments_of flt;
             last_idx = length segments - 1
         in validate_filter_loop last_idx 0 segments))"

fun validate_topic_loop :: "rstr list \<Rightarrow> unit result" where
  "validate_topic_loop [] = Ok ()"
| "validate_topic_loop (seg # segs) =
     (if has_wildcard seg then Err (Protocol WildcardInPublishTopic)
      else validate_topic_loop segs)"

definition validate_publish_topic :: "rstr \<Rightarrow> unit result" where
  "validate_publish_topic topic =
     (if topic = [] then Err (Protocol EmptyTopic)
      else if length topic > MAX_TOPIC_LEN then Err (Protocol TopicTooLong)
      else validate_topic_loop (segments_of topic))"

section \<open>The grammar, declaratively\<close>

text \<open>
  A level of a filter is plain, or a lone \<open>+\<close>, or, when it is the last one, a lone \<open>#\<close>. A topic
  name has no wildcard character at all.
\<close>

definition level_ok :: "rstr \<Rightarrow> bool" where
  "level_ok seg \<longleftrightarrow> seg = ''+'' \<or> \<not> has_wildcard seg"

definition filter_ok :: "rstr \<Rightarrow> bool" where
  "filter_ok s \<longleftrightarrow> s \<noteq> [] \<and> length s \<le> MAX_TOPIC_LEN \<and>
     (let segs = segments_of s in
        list_all level_ok (butlast segs) \<and> (last segs = ''#'' \<or> level_ok (last segs)))"

definition topic_ok :: "rstr \<Rightarrow> bool" where
  "topic_ok s \<longleftrightarrow> s \<noteq> [] \<and> length s \<le> MAX_TOPIC_LEN \<and> \<not> has_wildcard s"

text \<open>The pattern a well-formed level stands for.\<close>

definition pattern_of :: "rstr \<Rightarrow> 'r path_pattern" where
  "pattern_of seg = (if seg = ''+'' then Any else if seg = ''#'' then AnyPath else Literal seg)"

section \<open>Lemmas\<close>

lemma has_wildcard_simps [simp]: "has_wildcard ''+''" "has_wildcard ''#''" "\<not> has_wildcard []"
  by (simp_all add: has_wildcard_def)

lemma segments_of_not_Nil [simp]: "segments_of s \<noteq> []"
  by (simp add: segments_of_def)

lemma validate_filter_loop_Ok:
  "last_idx + 1 = i + length segs \<Longrightarrow> segs \<noteq> [] \<Longrightarrow>
   validate_filter_loop last_idx i segs = Ok () \<longleftrightarrow>
   list_all level_ok (butlast segs) \<and> (last segs = ''#'' \<or> level_ok (last segs))"
proof (induction last_idx i segs rule: validate_filter_loop.induct)
  case (1 last_idx i)
  then show ?case by simp
next
  case (2 last_idx i seg segs)
  show ?case
  proof (cases "segs = []")
    case True
    with "2.prems" show ?thesis by (simp add: level_ok_def)
  next
    case False
    with "2.prems" have "i \<noteq> last_idx" by (cases segs) auto
    with 2 False show ?thesis by (auto simp: level_ok_def)
  qed
qed

lemma validate_subscribe_filter_Ok_iff: "validate_subscribe_filter s = Ok () \<longleftrightarrow> filter_ok s"
proof -
  have "validate_filter_loop (length (segments_of s) - 1) 0 (segments_of s) = Ok () \<longleftrightarrow>
    list_all level_ok (butlast (segments_of s)) \<and>
      (last (segments_of s) = ''#'' \<or> level_ok (last (segments_of s)))"
    by (rule validate_filter_loop_Ok) (simp_all add: Suc_leI)
  then show ?thesis
    unfolding validate_subscribe_filter_def filter_ok_def Let_def by auto
qed

lemma parse_filter_loop_eq:
  "parse_filter_loop last_idx i ps segs =
   obind (validate_filter_loop last_idx i segs) (\<lambda>_. Ok (ps @ map pattern_of segs))"
  by (induction last_idx i ps segs rule: parse_filter_loop.induct) (auto simp: pattern_of_def)

lemma parse_subscribe_filter_eq:
  "parse_subscribe_filter s =
   obind (validate_subscribe_filter s) (\<lambda>_. Ok (map pattern_of (segments_of s)))"
  unfolding parse_subscribe_filter_def validate_subscribe_filter_def Let_def
  by (simp add: parse_filter_loop_eq)

lemma parse_topic_loop_eq:
  "parse_topic_loop ps segs =
   obind (validate_topic_loop segs) (\<lambda>_. Ok (ps @ map Literal segs))"
  by (induction ps segs rule: parse_topic_loop.induct) auto

lemma parse_publish_topic_eq:
  "parse_publish_topic s =
   obind (validate_publish_topic s) (\<lambda>_. Ok (map Literal (segments_of s)))"
  unfolding parse_publish_topic_def validate_publish_topic_def by (simp add: parse_topic_loop_eq)

lemma validate_topic_loop_Ok:
  "validate_topic_loop segs = Ok () \<longleftrightarrow> (\<forall>seg \<in> set segs. \<not> has_wildcard seg)"
  by (induction segs) auto

lemma set_join_with: "set (join_with sep xss) \<subseteq> set sep \<union> (\<Union>xs \<in> set xss. set xs)"
  by (induction sep xss rule: join_with.induct) auto

lemma has_wildcard_segments: "has_wildcard s \<longleftrightarrow> (\<exists>seg \<in> set (segments_of s). has_wildcard seg)"
proof
  assume "has_wildcard s"
  then have "has_wildcard (join_with ''/'' (segments_of s))"
    by (simp add: segments_of_def join_split)
  then show "\<exists>seg \<in> set (segments_of s). has_wildcard seg"
    using set_join_with [of "''/''" "segments_of s"] by (auto simp: has_wildcard_def)
next
  assume "\<exists>seg \<in> set (segments_of s). has_wildcard seg"
  then show "has_wildcard s"
    using set_split_on_subset by (fastforce simp: has_wildcard_def segments_of_def)
qed

lemma validate_publish_topic_Ok_iff: "validate_publish_topic s = Ok () \<longleftrightarrow> topic_ok s"
  unfolding validate_publish_topic_def topic_ok_def
  by (auto simp: validate_topic_loop_Ok has_wildcard_segments [of s])

lemma validators_return [simp]:
  "returns (validate_subscribe_filter s)" "returns (validate_publish_topic s)"
proof -
  have "returns (validate_filter_loop l i segs)" for l i segs
    by (induction l i segs rule: validate_filter_loop.induct) auto
  moreover have "returns (validate_topic_loop segs)" for segs
    by (induction segs) simp_all
  ultimately show "returns (validate_subscribe_filter s)" "returns (validate_publish_topic s)"
    by (simp_all add: validate_subscribe_filter_def validate_publish_topic_def Let_def)
qed

lemma pattern_to_wire_of [simp]: "pattern_to_wire (pattern_of seg) = seg"
  by (simp add: pattern_of_def)

lemma topic_ok_filter_ok: "topic_ok s \<Longrightarrow> filter_ok s"
proof -
  assume t: "topic_ok s"
  then have "\<forall>seg \<in> set (segments_of s). level_ok seg"
    by (auto simp: topic_ok_def level_ok_def has_wildcard_segments [of s])
  with t show "filter_ok s"
    by (auto simp: filter_ok_def topic_ok_def Let_def list_all_iff dest: in_set_butlastD)
qed

section \<open>Properties\<close>

text \<open>
  The two ways of checking a filter and the two ways of checking a topic agree on every input, and all four
  return.
\<close>

theorem validators_agree_with_parsers:
  "parse_subscribe_filter s =
     obind (validate_subscribe_filter s) (\<lambda>_. Ok (map pattern_of (segments_of s))) \<and>
   parse_publish_topic t =
     obind (validate_publish_topic t) (\<lambda>_. Ok (map Literal (segments_of t))) \<and>
   returns (validate_subscribe_filter s) \<and> returns (validate_publish_topic t)"
  by (simp add: parse_subscribe_filter_eq parse_publish_topic_eq)

text \<open>
  C34: which strings are accepted. A filter passes exactly when it is non-empty, at most 65535 bytes
  long, every level is plain or a lone \<open>+\<close>, and only the last may be a lone \<open>#\<close>; a topic passes
  exactly when it is non-empty, at most 65535 bytes long and free of wildcard characters. Every topic
  is also a filter. On every input the allocating parsers agree with the validators: they accept the same strings,
  with one pattern per level, and refuse the others with the same error.
\<close>

theorem topic_grammars:
  "(validate_subscribe_filter s = Ok () \<longleftrightarrow> filter_ok s) \<and>
   (validate_publish_topic s = Ok () \<longleftrightarrow> topic_ok s) \<and>
   (topic_ok s \<longrightarrow> filter_ok s) \<and>
   parse_subscribe_filter s = obind (validate_subscribe_filter s) (\<lambda>_. Ok (map pattern_of (segments_of s))) \<and>
   parse_publish_topic s = obind (validate_publish_topic s) (\<lambda>_. Ok (map Literal (segments_of s)))"
  by (simp add: validate_subscribe_filter_Ok_iff validate_publish_topic_Ok_iff topic_ok_filter_ok
      parse_subscribe_filter_eq parse_publish_topic_eq)

theorem topic_grammars_witness:
  "topic_ok ''a/b'' \<and> filter_ok ''a/b'' \<and> filter_ok ''a/+/#'' \<and> \<not> filter_ok ''a/#/b'' \<and>
   \<not> topic_ok ''a/+''"
proof -
  have "topic_ok ''a/b''" by (simp add: topic_ok_def MAX_TOPIC_LEN_def has_wildcard_def)
  moreover from this have "filter_ok ''a/b''" using topic_grammars by blast
  ultimately show ?thesis
    by (simp add: topic_ok_def filter_ok_def MAX_TOPIC_LEN_def has_wildcard_def segments_of_def
        level_ok_def)
qed

text \<open>
  A filter survives the trip through its route patterns: printing what was parsed gives the
  filter back, and parsing what was printed gives the patterns back.
\<close>

theorem filter_path_round_trip:
  assumes "parse_subscribe_filter s = (Ok ps :: 'r path_pattern list result)"
  shows "path_to_wire_filter ps = s \<and>
    (parse_subscribe_filter (path_to_wire_filter ps) :: 'r path_pattern list result) = Ok ps"
proof -
  from assms have "ps = map pattern_of (segments_of s)"
    by (auto simp: parse_subscribe_filter_eq obind_Ok_iff)
  then have "path_to_wire_filter ps = s"
    by (simp add: path_to_wire_filter_def comp_def segments_of_def join_split)
  with assms show ?thesis by simp
qed

theorem filter_path_round_trip_witness:
  "(parse_subscribe_filter ''a/+/#'' :: unit path_pattern list result) =
     Ok [Literal ''a'', Any, AnyPath] \<and>
   path_to_wire_filter ([Literal ''a'', Any, AnyPath] :: unit path_pattern list) = ''a/+/#''"
proof -
  have p: "(parse_subscribe_filter ''a/+/#'' :: unit path_pattern list result) =
      Ok [Literal ''a'', Any, AnyPath]"
    by (simp add: parse_subscribe_filter_def MAX_TOPIC_LEN_def has_wildcard_def segments_of_def)
  with filter_path_round_trip [OF p] show ?thesis by simp
qed

end
