(* ===== verification/Mqtt_Broker.thy ===== *)
theory Mqtt_Broker
  imports Mqtt_Channel Mqtt_Topic Mqtt_Safety
begin

text \<open>
  The broker, \<^verbatim>\<open>src/src/broker.rs\<close>: authenticators, the subscription tree and its matching, the
  session table, and the fan-out of publishes.

  The broker holds clones of channels. A channel clone is a reference into the store of channels
  \<open>nat \<Rightarrow> channel\<close>, so what the broker does to a subscriber's channel is seen by the connection that
  owns it. Each broker method is one step on the pair of broker and store. The iteration order of
  the two levels of \<^verbatim>\<open>DashMap\<close>s is an argument (\<open>iter_order\<close>).
\<close>

section \<open>Authenticators\<close>

record auth_result =
  auth_accepted :: bool
  auth_return_code :: connack_return_code

definition auth_accept :: auth_result where
  "auth_accept = \<lparr>auth_accepted = True, auth_return_code = Accepted\<rparr>"

definition auth_reject :: "connack_return_code \<Rightarrow> auth_result" where
  "auth_reject code = \<lparr>auth_accepted = False, auth_return_code = code\<rparr>"

text \<open>The \<^verbatim>\<open>Authenticator\<close> trait is implemented by the application: a function held by the broker.\<close>

type_synonym authenticator = "connect_packet \<Rightarrow> socket_addr option \<Rightarrow> auth_result"

definition accept_all_authenticator :: authenticator where
  "accept_all_authenticator connect remote_addr = auth_accept"

definition deny_all_authenticator :: authenticator where
  "deny_all_authenticator connect remote_addr = auth_reject NotAuthorized"

section \<open>The subscription tree\<close>

type_synonym sub_set = "(rstr, qos) dashmap"
type_synonym sub_tree = "(rstr, sub_set) dashmap"

record iter_order =
  ord_filters :: "(rstr \<times> sub_set) list \<Rightarrow> (rstr \<times> sub_set) list"
  ord_clients :: "(rstr \<times> qos) list \<Rightarrow> (rstr \<times> qos) list"

definition tree_new :: sub_tree where
  "tree_new = []"

definition tree_subscribe :: "rstr \<Rightarrow> rstr \<Rightarrow> qos \<Rightarrow> sub_tree \<Rightarrow> sub_tree" where
  "tree_subscribe client flt q t =
     (let subs = (case dm_get t flt of None \<Rightarrow> [] | Some subs \<Rightarrow> subs)
      in dm_insert flt (dm_insert client q subs) t)"

definition tree_unsubscribe :: "rstr \<Rightarrow> rstr \<Rightarrow> sub_tree \<Rightarrow> sub_tree" where
  "tree_unsubscribe client flt t =
     (case dm_get t flt of
        None \<Rightarrow> t
      | Some subs \<Rightarrow> dm_insert flt (dm_remove client subs) t)"

definition tree_remove_client :: "rstr \<Rightarrow> sub_tree \<Rightarrow> sub_tree" where
  "tree_remove_client client t = map (\<lambda>(flt, subs). (flt, dm_remove client subs)) t"

text \<open>The matching loop, over the two positions \<open>t\<close> and \<open>f\<close>.\<close>

function fm_loop :: "rstr list \<Rightarrow> rstr list \<Rightarrow> usize \<Rightarrow> usize \<Rightarrow> bool" where
  "fm_loop filter_segs topic_segs t f =
     (if f < length filter_segs then
        (let seg = filter_segs ! f in
         if seg = ''#'' then True
         else if seg = ''+'' then
           (if t \<ge> length topic_segs then False else fm_loop filter_segs topic_segs (t + 1) (f + 1))
         else if t \<ge> length topic_segs \<or> seg \<noteq> topic_segs ! t then False
         else fm_loop filter_segs topic_segs (t + 1) (f + 1))
      else t = length topic_segs)"
  by auto
termination by (relation "measure (\<lambda>(fs, ts, t, f). length fs - f)") auto

definition filter_matches :: "rstr \<Rightarrow> rstr list \<Rightarrow> bool" where
  "filter_matches flt topic_segs = fm_loop (segments_of flt) topic_segs 0 0"

definition tree_matching :: "iter_order \<Rightarrow> sub_tree \<Rightarrow> rstr \<Rightarrow> (rstr \<times> qos) list" where
  "tree_matching ord t topic =
     (let topic_segs = segments_of topic in
      concat (map (\<lambda>(flt, subs). if filter_matches flt topic_segs then ord_clients ord subs else [])
        (ord_filters ord t)))"

section \<open>The broker\<close>

record subscriber_entry =
  entry_channel :: nat
  entry_filters :: "(rstr, qos) dashmap"
  entry_will :: "will_message option"
  entry_clean_session :: bool

record broker =
  sessions :: "(rstr, subscriber_entry) dashmap"
  subscriptions :: sub_tree
  authenticator :: authenticator
  safety :: mqtt_safety

type_synonym chans = "nat \<Rightarrow> channel"

definition broker_build :: "authenticator \<Rightarrow> mqtt_safety \<Rightarrow> broker" where
  "broker_build auth sf =
     \<lparr>sessions = [], subscriptions = tree_new, authenticator = auth, safety = sf\<rparr>"

definition broker_new :: broker where
  "broker_new = broker_build deny_all_authenticator safety_new"

definition broker_accept_all :: broker where
  "broker_accept_all = broker_build accept_all_authenticator safety_new"

definition broker_with_authenticator :: "authenticator \<Rightarrow> broker" where
  "broker_with_authenticator auth = broker_build auth safety_new"

definition broker_with_safety :: "mqtt_safety \<Rightarrow> broker" where
  "broker_with_safety sf = broker_build deny_all_authenticator sf"

definition broker_accept_all_with_safety :: "mqtt_safety \<Rightarrow> broker" where
  "broker_accept_all_with_safety sf = broker_build accept_all_authenticator sf"

definition broker_with_authenticator_and_safety :: "authenticator \<Rightarrow> mqtt_safety \<Rightarrow> broker" where
  "broker_with_authenticator_and_safety auth sf = broker_build auth sf"

definition session_count :: "broker \<Rightarrow> usize" where
  "session_count b = length (sessions b)"

definition authenticate :: "broker \<Rightarrow> connect_packet \<Rightarrow> socket_addr option \<Rightarrow> auth_result" where
  "authenticate b connect remote_addr = authenticator b connect remote_addr"

subsection \<open>Publish fan-out\<close>

text \<open>The body of the fan-out loop once the subscriber's entry is found: what happens to its channel.\<close>

definition deliver_to :: "publish_packet \<Rightarrow> qos \<Rightarrow> channel \<Rightarrow> channel" where
  "deliver_to packet sub_qos ch =
     (let effective_qos = min (pub_qos packet) sub_qos;
          (packet_id, ch) =
            (if effective_qos > AtMostOnce then
               (let (i, s) = allocate_packet_id (ch_session ch);
                    ch = ch\<lparr>ch_session := s\<rparr>;
                    ch = with_session (track_outbound_inflight i packet) ch
                in (Some i, ch))
             else (None, ch));
          adjusted = \<lparr>pub_topic = pub_topic packet, pub_payload = pub_payload packet, pub_dup = False,
                      pub_qos = effective_qos, pub_retain = False, pub_packet_id = packet_id\<rparr>
      in snd (send_publish adjusted ch))"

definition deliver_one :: "broker \<Rightarrow> rstr \<Rightarrow> publish_packet \<Rightarrow> rstr \<times> qos \<Rightarrow> chans \<Rightarrow> chans" where
  "deliver_one b source packet m chs =
     (let (sub_id, sub_qos) = m in
      if sub_id = source then chs
      else (case dm_get (sessions b) sub_id of
              None \<Rightarrow> chs
            | Some entry \<Rightarrow>
                chs(entry_channel entry := deliver_to packet sub_qos (chs (entry_channel entry)))))"

definition publish :: "iter_order \<Rightarrow> rstr \<Rightarrow> publish_packet \<Rightarrow> broker \<Rightarrow> chans \<Rightarrow> chans" where
  "publish ord source packet b chs =
     fold (deliver_one b source packet) (tree_matching ord (subscriptions b) (pub_topic packet)) chs"

definition publish_will :: "iter_order \<Rightarrow> will_message option \<Rightarrow> broker \<Rightarrow> chans \<Rightarrow> chans" where
  "publish_will ord will b chs =
     (case will of
        None \<Rightarrow> chs
      | Some w \<Rightarrow>
          publish ord ''''
            \<lparr>pub_topic = will_topic w, pub_payload = will_payload w, pub_dup = False,
             pub_qos = will_qos w, pub_retain = will_retain w, pub_packet_id = None\<rparr> b chs)"

subsection \<open>Session lifecycle\<close>

definition register_session ::
  "iter_order \<Rightarrow> rstr \<Rightarrow> nat \<Rightarrow> will_message option \<Rightarrow> bool \<Rightarrow> broker \<Rightarrow> chans \<Rightarrow> bool \<times> broker \<times> chans" where
  "register_session ord cid ch will clean_session b chs =
     (let existing = dm_get (sessions b) cid;
          b = b\<lparr>sessions := dm_remove cid (sessions b)\<rparr>;
          session_present = (\<not> clean_session \<and> existing \<noteq> None);
          chs = (case existing of
                   None \<Rightarrow> chs
                 | Some prev \<Rightarrow>
                     (let chs = chs(entry_channel prev := close (chs (entry_channel prev)))
                      in publish_will ord (entry_will prev) b chs));
          b = (if clean_session then b\<lparr>subscriptions := tree_remove_client cid (subscriptions b)\<rparr> else b);
          b = b\<lparr>sessions := dm_insert cid
                 \<lparr>entry_channel = ch, entry_filters = [], entry_will = will,
                  entry_clean_session = clean_session\<rparr> (sessions b)\<rparr>
      in (session_present, b, chs))"

definition unregister_session ::
  "iter_order \<Rightarrow> rstr \<Rightarrow> u64 \<Rightarrow> bool \<Rightarrow> broker \<Rightarrow> chans \<Rightarrow> broker \<times> chans" where
  "unregister_session ord cid connection_id graceful b chs =
     (case dm_get (sessions b) cid of
        None \<Rightarrow> (b, chs)
      | Some entry \<Rightarrow>
          if ch_connection_id (chs (entry_channel entry)) \<noteq> connection_id then (b, chs)
          else
            (let b = b\<lparr>sessions := dm_remove cid (sessions b)\<rparr>;
                 b = b\<lparr>subscriptions := tree_remove_client cid (subscriptions b)\<rparr>;
                 chs = (if \<not> graceful then publish_will ord (entry_will entry) b chs else chs)
             in (b, chs)))"

subsection \<open>Subscriptions\<close>

text \<open>The loop over the requested filters; the table entry and the tree change together.\<close>

fun subscribe_loop ::
  "rstr \<Rightarrow> topic_filter list \<Rightarrow> subscriber_entry \<Rightarrow> sub_tree \<Rightarrow>
   suback_code list \<times> subscriber_entry \<times> sub_tree" where
  "subscribe_loop cid [] entry t = ([], entry, t)"
| "subscribe_loop cid (tf # tfs) entry t =
     (case validate_subscribe_filter (tf_filter tf) of
        Ok _ \<Rightarrow>
          (let entry = entry\<lparr>entry_filters := dm_insert (tf_filter tf) (tf_qos tf) (entry_filters entry)\<rparr>;
               t = tree_subscribe cid (tf_filter tf) (tf_qos tf) t;
               (codes, entry, t) = subscribe_loop cid tfs entry t
           in (Granted (tf_qos tf) # codes, entry, t))
      | _ \<Rightarrow>
          (let (codes, entry, t) = subscribe_loop cid tfs entry t in (Failure # codes, entry, t)))"

definition entry_of_connection :: "rstr \<Rightarrow> u64 \<Rightarrow> broker \<Rightarrow> chans \<Rightarrow> subscriber_entry option" where
  "entry_of_connection cid connection_id b chs =
     (case dm_get (sessions b) cid of
        None \<Rightarrow> None
      | Some entry \<Rightarrow>
          if ch_connection_id (chs (entry_channel entry)) = connection_id then Some entry else None)"

definition broker_subscribe ::
  "rstr \<Rightarrow> u64 \<Rightarrow> topic_filter list \<Rightarrow> broker \<Rightarrow> chans \<Rightarrow> suback_code list \<times> broker" where
  "broker_subscribe cid connection_id filters b chs =
     (case entry_of_connection cid connection_id b chs of
        None \<Rightarrow> (map (\<lambda>_. Failure) filters, b)
      | Some entry \<Rightarrow>
          (let (codes, entry, t) = subscribe_loop cid filters entry (subscriptions b)
           in (codes, b\<lparr>sessions := dm_insert cid entry (sessions b), subscriptions := t\<rparr>)))"

fun unsubscribe_loop ::
  "rstr \<Rightarrow> rstr list \<Rightarrow> subscriber_entry \<Rightarrow> sub_tree \<Rightarrow> subscriber_entry \<times> sub_tree" where
  "unsubscribe_loop cid [] entry t = (entry, t)"
| "unsubscribe_loop cid (topic # topics) entry t =
     (let entry = entry\<lparr>entry_filters := dm_remove topic (entry_filters entry)\<rparr>;
          t = tree_unsubscribe cid topic t
      in unsubscribe_loop cid topics entry t)"

definition broker_unsubscribe :: "rstr \<Rightarrow> u64 \<Rightarrow> rstr list \<Rightarrow> broker \<Rightarrow> chans \<Rightarrow> broker" where
  "broker_unsubscribe cid connection_id topics b chs =
     (case entry_of_connection cid connection_id b chs of
        None \<Rightarrow> b
      | Some entry \<Rightarrow>
          (let (entry, t) = unsubscribe_loop cid topics entry (subscriptions b)
           in b\<lparr>sessions := dm_insert cid entry (sessions b), subscriptions := t\<rparr>))"

definition incoming_from_packet :: "publish_packet \<Rightarrow> incoming_publish" where
  "incoming_from_packet p =
     \<lparr>inc_topic = pub_topic p, inc_payload = pub_payload p, inc_qos = pub_qos p,
      inc_retain = pub_retain p, inc_dup = pub_dup p, inc_packet_id = pub_packet_id p\<rparr>"

section \<open>Topic matching, declaratively\<close>

text \<open>
  A level of the filter admits a level of the topic when it is \<open>+\<close> or the same string. A filter
  without \<open>#\<close> matches the topics of the same length whose levels are admitted one by one; a filter
  that ends in \<open>#\<close> those that are at least as long as what precedes the \<open>#\<close>.
\<close>

definition admits :: "rstr \<Rightarrow> rstr \<Rightarrow> bool" where
  "admits fseg tseg \<longleftrightarrow> fseg = ''+'' \<or> fseg = tseg"

definition matches_spec :: "rstr list \<Rightarrow> rstr list \<Rightarrow> bool" where
  "matches_spec fs ts \<longleftrightarrow>
     (if last fs = ''#'' then
        length fs - 1 \<le> length ts \<and> list_all2 admits (butlast fs) (take (length fs - 1) ts)
      else list_all2 admits fs ts)"

fun match_segs :: "rstr list \<Rightarrow> rstr list \<Rightarrow> bool" where
  "match_segs [] ts = (ts = [])"
| "match_segs (f # fs) ts =
     (if f = ''#'' then True
      else (case ts of [] \<Rightarrow> False | t # ts' \<Rightarrow> admits f t \<and> match_segs fs ts'))"

declare fm_loop.simps [simp del]

lemma fm_loop_eq: "t \<le> length ts \<Longrightarrow> fm_loop fs ts t f = match_segs (drop f fs) (drop t ts)"
proof (induction fs ts t f rule: fm_loop.induct)
  case (1 fs ts t f)
  show ?case
  proof (cases "f < length fs")
    case False
    then show ?thesis using "1.prems" by (auto simp: fm_loop.simps [of fs ts t f])
  next
    case True
    then have fs: "drop f fs = fs ! f # drop (Suc f) fs" by (simp add: Cons_nth_drop_Suc)
    show ?thesis
    proof (cases "t < length ts")
      case False
      with "1.prems" have "t = length ts" by simp
      with True fs show ?thesis by (simp add: fm_loop.simps [of fs ts "length ts" f])
    next
      case t: True
      then have "drop t ts = ts ! t # drop (Suc t) ts" by (simp add: Cons_nth_drop_Suc)
      with True t fs 1 show ?thesis by (auto simp: fm_loop.simps [of fs ts t f] admits_def Let_def)
    qed
  qed
qed

lemma match_segs_no_hash: "''#'' \<notin> set fs \<Longrightarrow> match_segs fs ts = list_all2 admits fs ts"
proof (induction fs arbitrary: ts)
  case (Cons f fs)
  then show ?case by (cases ts) auto
qed simp

lemma match_segs_hash:
  "''#'' \<notin> set fs \<Longrightarrow> match_segs (fs @ [''#'']) ts \<longleftrightarrow>
   length fs \<le> length ts \<and> list_all2 admits fs (take (length fs) ts)"
proof (induction fs arbitrary: ts)
  case (Cons f fs)
  then show ?case by (cases ts) auto
qed simp

lemma filter_matches_eq: "filter_matches flt ts = match_segs (segments_of flt) ts"
  by (simp add: filter_matches_def fm_loop_eq)

lemma match_segs_spec:
  assumes "''#'' \<notin> set (butlast fs)" and "fs \<noteq> []"
  shows "match_segs fs ts = matches_spec fs ts"
proof (cases "last fs = ''#''")
  case True
  then have "fs = butlast fs @ [''#'']" using assms(2) by (metis append_butlast_last_id)
  with match_segs_hash [OF assms(1), of ts] True show ?thesis
    by (metis length_butlast matches_spec_def)
next
  case False
  have "''#'' \<notin> set fs"
  proof
    assume "''#'' \<in> set fs"
    then have "''#'' \<in> set (butlast fs @ [last fs])" using assms(2) by simp
    with assms(1) False show False by (metis in_set_butlast_appendI Un_iff empty_iff set_append set_ConsD list.set(1))
  qed
  with False show ?thesis by (simp add: match_segs_no_hash matches_spec_def)
qed

lemma filter_ok_hash_last: "filter_ok flt \<Longrightarrow> ''#'' \<notin> set (butlast (segments_of flt))"
  by (auto simp: filter_ok_def Let_def list_all_iff level_ok_def)

section \<open>The tree as a relation\<close>

definition tree_lookup :: "sub_tree \<Rightarrow> rstr \<Rightarrow> rstr \<Rightarrow> qos option" where
  "tree_lookup t flt client = (case dm_get t flt of None \<Rightarrow> None | Some subs \<Rightarrow> dm_get subs client)"

definition tree_wf :: "sub_tree \<Rightarrow> bool" where
  "tree_wf t \<longleftrightarrow> dm_wf t \<and> list_all (\<lambda>e. dm_wf (snd e)) t"

definition order_ok :: "iter_order \<Rightarrow> bool" where
  "order_ok ord \<longleftrightarrow> permutes_entries (ord_filters ord) \<and> permutes_entries (ord_clients ord)"

definition topic_selects :: "rstr \<Rightarrow> rstr \<Rightarrow> bool" where
  "topic_selects topic flt \<longleftrightarrow> filter_matches flt (segments_of topic)"

text \<open>
  The contract of a subscription index: it is a finite relation between filters and clients with a
  quality of service, updated pointwise, and matching returns every related pair whose filter is
  selected exactly once.
\<close>

locale subscription_index =
  fixes empty :: "'t"
    and subscribe :: "rstr \<Rightarrow> rstr \<Rightarrow> qos \<Rightarrow> 't \<Rightarrow> 't"
    and unsubscribe :: "rstr \<Rightarrow> rstr \<Rightarrow> 't \<Rightarrow> 't"
    and remove_client :: "rstr \<Rightarrow> 't \<Rightarrow> 't"
    and matching :: "'o \<Rightarrow> 't \<Rightarrow> rstr \<Rightarrow> (rstr \<times> qos) list"
    and lookup :: "'t \<Rightarrow> rstr \<Rightarrow> rstr \<Rightarrow> qos option"
    and selects :: "rstr \<Rightarrow> rstr \<Rightarrow> bool"
    and ok :: "'o \<Rightarrow> bool"
    and wf :: "'t \<Rightarrow> bool"
  assumes lookup_empty: "lookup empty flt client = None"
    and lookup_subscribe: "wf t \<Longrightarrow> lookup (subscribe c f q t) flt client =
          (if flt = f \<and> client = c then Some q else lookup t flt client)"
    and lookup_unsubscribe: "wf t \<Longrightarrow> lookup (unsubscribe c f t) flt client =
          (if flt = f \<and> client = c then None else lookup t flt client)"
    and lookup_remove_client: "wf t \<Longrightarrow> lookup (remove_client c t) flt client =
          (if client = c then None else lookup t flt client)"
    and wf_empty: "wf empty"
    and wf_subscribe: "wf t \<Longrightarrow> wf (subscribe c f q t)"
    and wf_unsubscribe: "wf t \<Longrightarrow> wf (unsubscribe c f t)"
    and wf_remove_client: "wf t \<Longrightarrow> wf (remove_client c t)"
    and lookup_finite: "wf t \<Longrightarrow> finite {f. lookup t f client \<noteq> None}"
    and matching_client: "wf t \<Longrightarrow> ok ord \<Longrightarrow>
          mset (map snd (filter (\<lambda>m. fst m = client) (matching ord t topic))) =
          image_mset (\<lambda>f. the (lookup t f client)) (mset_set {f. selects topic f \<and> lookup t f client \<noteq> None})"
begin

lemma matching_iff:
  assumes "wf t" and "ok ord"
  shows "(client, q) \<in> set (matching ord t topic) \<longleftrightarrow> (\<exists>f. selects topic f \<and> lookup t f client = Some q)"
proof -
  have fin: "finite {f. selects topic f \<and> lookup t f client \<noteq> None}"
    by (rule finite_subset [OF _ lookup_finite [OF assms(1), of client]]) auto
  have "(client, q) \<in> set (matching ord t topic) \<longleftrightarrow>
      q \<in># mset (map snd (filter (\<lambda>m. fst m = client) (matching ord t topic)))"
    by force
  also have "\<dots> \<longleftrightarrow> (\<exists>f. selects topic f \<and> lookup t f client = Some q)"
    unfolding matching_client [OF assms] using fin by force
  finally show ?thesis .
qed

lemma removed_never_matched:
  assumes "wf t" and "ok ord"
  shows "client \<notin> fst ` set (matching ord (remove_client client t) topic)"
proof
  assume "client \<in> fst ` set (matching ord (remove_client client t) topic)"
  then obtain q where "(client, q) \<in> set (matching ord (remove_client client t) topic)" by auto
  then show False
    using matching_iff [OF wf_remove_client [OF assms(1)] assms(2)] lookup_remove_client [OF assms(1)]
    by auto
qed

end

lemma tree_wf_Cons: "tree_wf ((f, subs) # t) \<longleftrightarrow> dm_wf subs \<and> f \<notin> fst ` set t \<and> tree_wf t"
  by (auto simp: tree_wf_def dm_wf_def)

lemma tree_wf_get: "tree_wf t \<Longrightarrow> dm_get t f = Some subs \<Longrightarrow> dm_wf subs"
  using dm_get_SomeD [of t f subs] by (auto simp: tree_wf_def list_all_iff)

lemma tree_lookup_Cons:
  "tree_lookup ((f, subs) # t) flt client = (if flt = f then dm_get subs client else tree_lookup t flt client)"
  by (simp add: tree_lookup_def dm_get_def)

lemma tree_wf_insert: "tree_wf t \<Longrightarrow> dm_wf subs \<Longrightarrow> tree_wf (dm_insert f subs t)"
  by (auto simp: tree_wf_def list_all_iff set_dm_insert)

lemma tree_remove_client_map_snd:
  "map fst (tree_remove_client c t) = map fst t"
  by (induction t) (auto simp: tree_remove_client_def)

lemma tree_wf_remove_client: "tree_wf t \<Longrightarrow> tree_wf (tree_remove_client c t)"
  by (auto simp: tree_wf_def dm_wf_def [of t] dm_wf_def [of "tree_remove_client c t"]
      tree_remove_client_map_snd)
    (auto simp: tree_remove_client_def list_all_iff)

lemma tree_lookup_remove_client:
  "tree_lookup (tree_remove_client c t) flt client = (if client = c then None else tree_lookup t flt client)"
  by (induction t) (auto simp: tree_remove_client_def tree_lookup_Cons, simp_all add: tree_lookup_def)

lemma tree_lookup_finite: "finite {f. tree_lookup t f client \<noteq> None}"
proof (rule finite_subset)
  show "{f. tree_lookup t f client \<noteq> None} \<subseteq> fst ` set t"
    by (force simp: tree_lookup_def dest: dm_get_SomeD split: option.splits)
qed simp

lemma mset_concat_map_perm:
  assumes "mset xs = mset ys" and "\<And>x. mset (g x) = mset (h x)"
  shows "mset (concat (map g xs)) = mset (concat (map h ys))"
proof -
  have "mset (concat (map g xs)) = (\<Sum>x \<in># mset xs. mset (g x))"
    by (simp add: mset_concat sum_mset_sum_list comp_def flip: mset_map)
  also have "\<dots> = (\<Sum>x \<in># mset ys. mset (h x))" using assms by simp
  also have "\<dots> = mset (concat (map h ys))"
    by (simp add: mset_concat sum_mset_sum_list comp_def flip: mset_map)
  finally show ?thesis .
qed

lemma tree_matching_mset:
  assumes "order_ok ord"
  shows "mset (tree_matching ord t topic) =
    mset (concat (map (\<lambda>(f, subs). if topic_selects topic f then subs else []) t))"
  unfolding tree_matching_def Let_def topic_selects_def
  by (rule mset_concat_map_perm)
    (use assms in \<open>auto simp: order_ok_def permutes_entriesD\<close>)

lemma tree_entries_client:
  assumes "tree_wf t"
  shows "mset (map snd (filter (\<lambda>m. fst m = client)
      (concat (map (\<lambda>(f, subs). if topic_selects topic f then subs else []) t)))) =
    image_mset (\<lambda>f. the (tree_lookup t f client))
      (mset_set {f. topic_selects topic f \<and> tree_lookup t f client \<noteq> None})"
  using assms
proof (induction t)
  case Nil
  then show ?case by (simp add: tree_lookup_def)
next
  case (Cons e t)
  obtain f subs where e: "e = (f, subs)" by (cases e)
  with Cons.prems have wf: "dm_wf subs" "f \<notin> fst ` set t" "tree_wf t"
    by (simp_all add: tree_wf_Cons)
  let ?S = "{g. topic_selects topic g \<and> tree_lookup t g client \<noteq> None}"
  have fin: "finite ?S" by (rule finite_subset [OF _ tree_lookup_finite [of t client]]) auto
  have notin: "f \<notin> ?S" using wf(2) by (simp add: tree_lookup_def dm_get_None_iff [symmetric])
  have same: "image_mset (\<lambda>g. the (tree_lookup (e # t) g client)) (mset_set ?S) =
      image_mset (\<lambda>g. the (tree_lookup t g client)) (mset_set ?S)"
    using notin fin by (intro image_mset_cong) (auto simp: e tree_lookup_Cons)
  have "{g. topic_selects topic g \<and> tree_lookup (e # t) g client \<noteq> None} =
      (if topic_selects topic f \<and> dm_get subs client \<noteq> None then insert f ?S else ?S)"
    using notin by (auto simp: e tree_lookup_Cons)
  then have "image_mset (\<lambda>g. the (tree_lookup (e # t) g client))
      (mset_set {g. topic_selects topic g \<and> tree_lookup (e # t) g client \<noteq> None}) =
      mset (if topic_selects topic f then (case dm_get subs client of None \<Rightarrow> [] | Some q \<Rightarrow> [q]) else []) +
      image_mset (\<lambda>g. the (tree_lookup t g client)) (mset_set ?S)"
    using same fin notin by (simp add: e tree_lookup_Cons split: option.splits)
  moreover have "map snd (filter (\<lambda>m. fst m = client) subs) =
      (case dm_get subs client of None \<Rightarrow> [] | Some q \<Rightarrow> [q])"
    using dm.filter_entries [OF wf(1), of client] by (simp split: option.splits)
  ultimately show ?case
    using Cons.IH [OF wf(3)] by (simp add: e del: mset_map mset_filter)
qed

lemma tree_lookup_empty: "tree_lookup tree_new flt client = None"
  by (simp add: tree_lookup_def tree_new_def)

lemma tree_lookup_subscribe:
  "tree_lookup (tree_subscribe c f q t) flt client =
   (if flt = f \<and> client = c then Some q else tree_lookup t flt client)"
  by (simp add: tree_lookup_def tree_subscribe_def split: option.splits)

lemma tree_lookup_unsubscribe:
  "tree_lookup (tree_unsubscribe c f t) flt client =
   (if flt = f \<and> client = c then None else tree_lookup t flt client)"
  by (simp add: tree_lookup_def tree_unsubscribe_def split: option.splits)

lemma tree_wf_ops:
  assumes "tree_wf t"
  shows "tree_wf (tree_subscribe c f q t)" and "tree_wf (tree_unsubscribe c f t)"
  using assms tree_wf_get [OF assms, of f]
  by (auto simp: tree_subscribe_def tree_unsubscribe_def Let_def intro!: tree_wf_insert split: option.splits)

lemma tree_matching_client:
  "tree_wf t \<Longrightarrow> order_ok ord \<Longrightarrow>
   mset (map snd (filter (\<lambda>m. fst m = client) (tree_matching ord t topic))) =
   image_mset (\<lambda>f. the (tree_lookup t f client))
     (mset_set {f. topic_selects topic f \<and> tree_lookup t f client \<noteq> None})"
  using tree_entries_client [of t client topic] tree_matching_mset [of ord t topic] by simp

interpretation tree: subscription_index tree_new tree_subscribe tree_unsubscribe tree_remove_client
  tree_matching tree_lookup topic_selects order_ok tree_wf
  by unfold_locales
    (rule tree_lookup_empty tree_lookup_subscribe tree_lookup_unsubscribe tree_lookup_remove_client
      tree_lookup_finite tree_wf_ops tree_wf_remove_client tree_matching_client
     | assumption | simp add: tree_wf_def tree_new_def)+

lemmas tree_simps [simp] = tree_lookup_empty tree_lookup_subscribe tree_lookup_unsubscribe
  tree_lookup_remove_client tree.wf_empty tree.wf_subscribe tree.wf_unsubscribe tree.wf_remove_client

end
