(* ===== verification/Mqtt_Broker_Properties.thy ===== *)
theory Mqtt_Broker_Properties
  imports Mqtt_Broker
begin

text \<open>
  The correctness of the broker: the invariant of its tables and that every operation keeps it, the
  exact fan-out of a publish, takeover and teardown of sessions, and subscription changes as changes
  of a relation.
\<close>

section \<open>What a delivery does to one channel\<close>

text \<open>The packet a subscriber is sent, given the id allocated for it.\<close>

definition adjusted_packet :: "publish_packet \<Rightarrow> qos \<Rightarrow> packet_id option \<Rightarrow> publish_packet" where
  "adjusted_packet p q i =
     \<lparr>pub_topic = pub_topic p, pub_payload = pub_payload p, pub_dup = False, pub_qos = q,
      pub_retain = False, pub_packet_id = i\<rparr>"

lemma cmd_send_simps [simp]:
  "ch_session (snd (cmd_send c ch)) = ch_session ch" "ch_open (snd (cmd_send c ch)) = ch_open ch"
  "ch_actor (snd (cmd_send c ch)) = ch_actor ch" "ch_writer (snd (cmd_send c ch)) = ch_writer ch"
  "ch_connection_id (snd (cmd_send c ch)) = ch_connection_id ch"
  "ch_role (snd (cmd_send c ch)) = ch_role ch" "ch_reader (snd (cmd_send c ch)) = ch_reader ch"
  "ch_remote_addr (snd (cmd_send c ch)) = ch_remote_addr ch"
  "ch_handles (snd (cmd_send c ch)) = ch_handles ch" "ch_loop (snd (cmd_send c ch)) = ch_loop ch"
  by (simp_all add: cmd_send_def)

lemma cmd_send_cmds [simp]:
  "ch_cmds (snd (cmd_send c ch)) = (if ch_actor ch = Stopped then ch_cmds ch else ch_cmds ch @ [c])"
  by (simp add: cmd_send_def)

lemma deliver_to_simps [simp]:
  "ch_open (deliver_to p q ch) = ch_open ch" "ch_actor (deliver_to p q ch) = ch_actor ch"
  "ch_writer (deliver_to p q ch) = ch_writer ch"
  "ch_connection_id (deliver_to p q ch) = ch_connection_id ch"
  "ch_role (deliver_to p q ch) = ch_role ch" "ch_reader (deliver_to p q ch) = ch_reader ch"
  "ch_remote_addr (deliver_to p q ch) = ch_remote_addr ch"
  by (simp_all add: deliver_to_def send_publish_def Let_def with_session_def split: prod.splits)

lemma deliver_to_cmds:
  "ch_actor ch \<noteq> Stopped \<Longrightarrow>
   ch_cmds (deliver_to p q ch) = ch_cmds ch @
     [CmdPublish (adjusted_packet p (min (pub_qos p) q)
        (if min (pub_qos p) q = AtMostOnce then None else Some (fst (allocate_packet_id (ch_session ch)))))]"
  by (simp add: deliver_to_def send_publish_def Let_def with_session_def adjusted_packet_def
      qos_pos_iff case_prod_beta)

lemma deliver_to_session:
  "ch_session (deliver_to p q ch) =
   (if min (pub_qos p) q = AtMostOnce then ch_session ch
    else track_outbound_inflight (fst (allocate_packet_id (ch_session ch))) p
           (snd (allocate_packet_id (ch_session ch))))"
  by (simp add: deliver_to_def send_publish_def Let_def with_session_def qos_pos_iff split: prod.splits)

lemma deliver_to_actor_session:
  "oneshots (ch_session (deliver_to p q ch)) = oneshots (ch_session ch)"
  "bind (ch_session (deliver_to p q ch)) = bind (ch_session ch)"
  "qos2_recv (ch_session (deliver_to p q ch)) = qos2_recv (ch_session ch)"
  "pending_acks (ch_session (deliver_to p q ch)) = pending_acks (ch_session ch)"
  by (simp_all add: deliver_to_session track_outbound_inflight_def allocate_packet_id_def Let_def)

lemma channel_ok_deliver_to [inv_intros]: "channel_ok ch \<Longrightarrow> channel_ok (deliver_to p q ch)"
proof -
  assume ok: "channel_ok ch"
  then have "session_ok (ch_session (deliver_to p q ch))"
    by (simp add: deliver_to_session channel_ok_def session_ok_tables)
  moreover have "ch_cmds (deliver_to p q ch) = ch_cmds ch" if "ch_actor ch = Stopped"
    using that by (simp add: deliver_to_def send_publish_def Let_def with_session_def case_prod_beta)
  ultimately show ?thesis using ok by (auto simp: channel_ok_def)
qed

lemma fold_deliver_to_simps [simp]:
  "ch_open (fold (deliver_to p) qs ch) = ch_open ch" "ch_actor (fold (deliver_to p) qs ch) = ch_actor ch"
  "ch_connection_id (fold (deliver_to p) qs ch) = ch_connection_id ch"
  by (induction qs arbitrary: ch) simp_all

text \<open>
  A run of deliveries to one channel: one command per quality of service, in order, and an id for
  each delivery above QoS 0, none of them zero.
\<close>

lemma fold_deliver_to_cmds:
  assumes "ch_actor ch \<noteq> Stopped"
  shows "\<exists>ids. ch_cmds (fold (deliver_to p) qs ch) = ch_cmds ch @
      map2 (\<lambda>q i. CmdPublish (adjusted_packet p (min (pub_qos p) q) i)) qs ids \<and> length ids = length qs \<and>
      list_all2 (\<lambda>q i. (i = None \<longleftrightarrow> min (pub_qos p) q = AtMostOnce) \<and> i \<noteq> Some 0) qs ids"
  using assms
proof (induction qs arbitrary: ch)
  case (Cons q qs)
  from Cons.IH [of "deliver_to p q ch"] Cons.prems obtain ids where ids:
    "ch_cmds (fold (deliver_to p) qs (deliver_to p q ch)) = ch_cmds (deliver_to p q ch) @
      map2 (\<lambda>q i. CmdPublish (adjusted_packet p (min (pub_qos p) q) i)) qs ids"
    "length ids = length qs"
    "list_all2 (\<lambda>q i. (i = None \<longleftrightarrow> min (pub_qos p) q = AtMostOnce) \<and> i \<noteq> Some 0) qs ids"
    by auto
  let ?i = "if min (pub_qos p) q = AtMostOnce then None else Some (fst (allocate_packet_id (ch_session ch)))"
  show ?case
    using ids Cons.prems
    by (intro exI [of _ "?i # ids"]) (simp add: deliver_to_cmds)
qed simp

section \<open>Invariant\<close>

text \<open>
  Every subscription in the tree is of a well-formed filter and belongs to a registered session;
  every filter recorded in an entry is in the tree; no two sessions share a channel.
\<close>

definition broker_ok :: "broker \<Rightarrow> bool" where
  "broker_ok b \<longleftrightarrow>
     dm_wf (sessions b) \<and> tree_wf (subscriptions b) \<and>
     (\<forall>c1 c2 e1 e2. dm_get (sessions b) c1 = Some e1 \<longrightarrow> dm_get (sessions b) c2 = Some e2 \<longrightarrow>
        entry_channel e1 = entry_channel e2 \<longrightarrow> c1 = c2) \<and>
     (\<forall>f c q. tree_lookup (subscriptions b) f c = Some q \<longrightarrow> filter_ok f \<and> dm_get (sessions b) c \<noteq> None) \<and>
     (\<forall>c e f q. dm_get (sessions b) c = Some e \<longrightarrow> dm_get (entry_filters e) f = Some q \<longrightarrow>
        tree_lookup (subscriptions b) f c = Some q)"

lemma broker_okD:
  assumes "broker_ok b"
  shows "dm_wf (sessions b)" and "tree_wf (subscriptions b)"
    and "dm_get (sessions b) c1 = Some e1 \<Longrightarrow> dm_get (sessions b) c2 = Some e2 \<Longrightarrow>
      entry_channel e1 = entry_channel e2 \<Longrightarrow> c1 = c2"
    and "tree_lookup (subscriptions b) f c = Some q \<Longrightarrow> filter_ok f"
    and "tree_lookup (subscriptions b) f c = Some q \<Longrightarrow> dm_get (sessions b) c \<noteq> None"
    and "dm_get (sessions b) c = Some e \<Longrightarrow> dm_get (entry_filters e) f = Some q \<Longrightarrow>
      tree_lookup (subscriptions b) f c = Some q"
  using assms unfolding broker_ok_def by blast+

lemma broker_ok_build [inv_intros]: "broker_ok (broker_build auth sf)"
  by (simp add: broker_ok_def broker_build_def)

section \<open>Fan-out\<close>

lemma deliver_one_other:
  assumes "\<And>e. dm_get (sessions b) (fst m) = Some e \<Longrightarrow> fst m \<noteq> source \<Longrightarrow> entry_channel e \<noteq> r"
  shows "deliver_one b source p m chs r = chs r"
  using assms by (cases m) (auto simp: deliver_one_def split: option.splits)

lemma fold_deliver_other:
  assumes "\<And>c e. dm_get (sessions b) c = Some e \<Longrightarrow> c \<noteq> source \<Longrightarrow> entry_channel e \<noteq> r"
  shows "fold (deliver_one b source p) ms chs r = chs r"
proof (induction ms arbitrary: chs)
  case (Cons m ms)
  have "deliver_one b source p m chs r = chs r" by (rule deliver_one_other) (rule assms)
  with Cons.IH [of "deliver_one b source p m chs"] show ?case by simp
qed simp

text \<open>No two sessions share a channel.\<close>

definition channels_unique :: "broker \<Rightarrow> bool" where
  "channels_unique b \<longleftrightarrow> (\<forall>c1 c2 e1 e2. dm_get (sessions b) c1 = Some e1 \<longrightarrow> dm_get (sessions b) c2 = Some e2 \<longrightarrow>
     entry_channel e1 = entry_channel e2 \<longrightarrow> c1 = c2)"

lemma broker_ok_unique: "broker_ok b \<Longrightarrow> channels_unique b"
  by (auto simp: broker_ok_def channels_unique_def)

lemma channels_uniqueD:
  "channels_unique b \<Longrightarrow> dm_get (sessions b) c1 = Some e1 \<Longrightarrow> dm_get (sessions b) c2 = Some e2 \<Longrightarrow>
   entry_channel e1 = entry_channel e2 \<Longrightarrow> c1 = c2"
  unfolding channels_unique_def by blast

lemma fold_deliver_client:
  assumes "channels_unique b" and "dm_get (sessions b) c = Some e" and "c \<noteq> source"
  shows "fold (deliver_one b source p) ms chs (entry_channel e) =
    fold (deliver_to p) (map snd (filter (\<lambda>m. fst m = c) ms)) (chs (entry_channel e))"
proof (induction ms arbitrary: chs)
  case (Cons m ms)
  have "deliver_one b source p m chs (entry_channel e) =
      (if fst m = c then deliver_to p (snd m) (chs (entry_channel e)) else chs (entry_channel e))"
  proof (cases "fst m = c")
    case True
    with assms show ?thesis by (cases m) (simp add: deliver_one_def)
  next
    case False
    then have "deliver_one b source p m chs (entry_channel e) = chs (entry_channel e)"
      using channels_uniqueD [OF assms(1) _ assms(2)] by (intro deliver_one_other) blast
    with False show ?thesis by simp
  qed
  with Cons.IH [of "deliver_one b source p m chs"] show ?case by simp
qed simp

text \<open>The qualities of service of the subscriptions of a client that a topic selects.\<close>

definition matching_qos :: "sub_tree \<Rightarrow> rstr \<Rightarrow> rstr \<Rightarrow> qos multiset" where
  "matching_qos t c topic =
     image_mset (\<lambda>f. the (tree_lookup t f c))
       (mset_set {f. filter_matches f (segments_of topic) \<and> tree_lookup t f c \<noteq> None})"

lemma matching_qos_eq:
  "tree_wf t \<Longrightarrow> order_ok ord \<Longrightarrow>
   mset (map snd (filter (\<lambda>m. fst m = c) (tree_matching ord t topic))) = matching_qos t c topic"
  unfolding matching_qos_def using tree.matching_client [of t ord c topic]
  by (simp add: topic_selects_def)

lemma publish_client_unique:
  assumes "channels_unique b" and "tree_wf (subscriptions b)" and "order_ok ord"
    and "dm_get (sessions b) c = Some e" and "c \<noteq> source"
  shows "\<exists>qs. mset qs = matching_qos (subscriptions b) c (pub_topic p) \<and>
    publish ord source p b chs (entry_channel e) = fold (deliver_to p) qs (chs (entry_channel e))"
  unfolding publish_def
  using fold_deliver_client [OF assms(1,4,5)] matching_qos_eq [OF assms(2,3)] by blast

lemma publish_client:
  assumes "broker_ok b" and "order_ok ord" and "dm_get (sessions b) c = Some e" and "c \<noteq> source"
  shows "\<exists>qs. mset qs = matching_qos (subscriptions b) c (pub_topic p) \<and>
    publish ord source p b chs (entry_channel e) = fold (deliver_to p) qs (chs (entry_channel e))"
  by (rule publish_client_unique [OF broker_ok_unique broker_okD(2)]) (rule assms)+

lemma publish_other:
  assumes "\<And>c e. dm_get (sessions b) c = Some e \<Longrightarrow> c \<noteq> source \<Longrightarrow> entry_channel e \<noteq> r"
  shows "publish ord source p b chs r = chs r"
  unfolding publish_def by (rule fold_deliver_other) (rule assms)

text \<open>What a publish never changes of any channel, and that it keeps channels well-formed.\<close>

lemma deliver_one_keeps:
  "ch_connection_id (deliver_one b source p m chs r) = ch_connection_id (chs r)"
  "ch_open (deliver_one b source p m chs r) = ch_open (chs r)"
  "ch_actor (deliver_one b source p m chs r) = ch_actor (chs r)"
  "oneshots (ch_session (deliver_one b source p m chs r)) = oneshots (ch_session (chs r))"
  "pending_acks (ch_session (deliver_one b source p m chs r)) = pending_acks (ch_session (chs r))"
  by (cases m; simp add: deliver_one_def deliver_to_actor_session split: option.splits)+

lemma publish_keeps [simp]:
  "ch_connection_id (publish ord source p b chs r) = ch_connection_id (chs r)"
  "ch_open (publish ord source p b chs r) = ch_open (chs r)"
  "ch_actor (publish ord source p b chs r) = ch_actor (chs r)"
  "oneshots (ch_session (publish ord source p b chs r)) = oneshots (ch_session (chs r))"
  "pending_acks (ch_session (publish ord source p b chs r)) = pending_acks (ch_session (chs r))"
proof -
  have f: "ch_connection_id (fold (deliver_one b source p) ms chs r) = ch_connection_id (chs r) \<and>
     ch_open (fold (deliver_one b source p) ms chs r) = ch_open (chs r) \<and>
     ch_actor (fold (deliver_one b source p) ms chs r) = ch_actor (chs r) \<and>
     oneshots (ch_session (fold (deliver_one b source p) ms chs r)) = oneshots (ch_session (chs r)) \<and>
     pending_acks (ch_session (fold (deliver_one b source p) ms chs r)) = pending_acks (ch_session (chs r))"
    for ms by (induction ms arbitrary: chs) (simp_all add: deliver_one_keeps)
  show "ch_connection_id (publish ord source p b chs r) = ch_connection_id (chs r)"
    "ch_open (publish ord source p b chs r) = ch_open (chs r)"
    "ch_actor (publish ord source p b chs r) = ch_actor (chs r)"
    "oneshots (ch_session (publish ord source p b chs r)) = oneshots (ch_session (chs r))"
    "pending_acks (ch_session (publish ord source p b chs r)) = pending_acks (ch_session (chs r))"
    using f by (simp_all add: publish_def)
qed

lemma publish_will_keeps [simp]:
  "ch_connection_id (publish_will ord w b chs r) = ch_connection_id (chs r)"
  "ch_open (publish_will ord w b chs r) = ch_open (chs r)"
  "oneshots (ch_session (publish_will ord w b chs r)) = oneshots (ch_session (chs r))"
  "pending_acks (ch_session (publish_will ord w b chs r)) = pending_acks (ch_session (chs r))"
  by (simp_all add: publish_will_def split: option.splits)

definition chans_ok :: "chans \<Rightarrow> bool" where
  "chans_ok chs \<longleftrightarrow> (\<forall>r. channel_ok (chs r))"

lemma chans_ok_upd: "chans_ok chs \<Longrightarrow> channel_ok ch \<Longrightarrow> chans_ok (chs(r := ch))"
  by (simp add: chans_ok_def)

lemma chans_ok_publish [inv_intros]: "chans_ok chs \<Longrightarrow> chans_ok (publish ord source p b chs)"
proof -
  have step: "chans_ok chs \<Longrightarrow> chans_ok (deliver_one b source p m chs)" for m chs
    by (cases m) (auto simp: deliver_one_def chans_ok_def channel_ok_deliver_to split: option.splits)
  have "chans_ok chs \<Longrightarrow> chans_ok (fold (deliver_one b source p) ms chs)" for ms
    by (induction ms arbitrary: chs) (simp_all add: step)
  then show "chans_ok chs \<Longrightarrow> chans_ok (publish ord source p b chs)" by (simp add: publish_def)
qed

lemma chans_ok_publish_will [inv_intros]: "chans_ok chs \<Longrightarrow> chans_ok (publish_will ord w b chs)"
  by (auto simp: publish_will_def chans_ok_publish split: option.splits)

section \<open>Subscribing and unsubscribing\<close>

text \<open>What a SUBSCRIBE asks for: its well-formed filters, the last mention of a filter winning.\<close>

definition granted :: "topic_filter list \<Rightarrow> rstr \<Rightarrow> qos option" where
  "granted tfs = map_of (rev (map (\<lambda>tf. (tf_filter tf, tf_qos tf))
     (filter (\<lambda>tf. filter_ok (tf_filter tf)) tfs)))"

lemma granted_simps [simp]:
  "granted [] = Map.empty"
  "granted (tf # tfs) =
     (if filter_ok (tf_filter tf) then [tf_filter tf \<mapsto> tf_qos tf] ++ granted tfs else granted tfs)"
  by (simp_all add: granted_def)

lemma granted_filter_ok: "granted tfs f = Some q \<Longrightarrow> filter_ok f"
  by (induction tfs) (auto simp: map_add_Some_iff split: if_splits)

lemma validate_case:
  "(case validate_subscribe_filter s of Ok _ \<Rightarrow> a | Err _ \<Rightarrow> b | Panic \<Rightarrow> b | Pending \<Rightarrow> b) =
   (if filter_ok s then a else b)"
  by (cases "validate_subscribe_filter s") (simp_all flip: validate_subscribe_filter_Ok_iff)

lemma subscribe_loop_Cons:
  "subscribe_loop cid (tf # tfs) entry t =
   (if filter_ok (tf_filter tf) then
      (let (codes, e', t') = subscribe_loop cid tfs
           (entry\<lparr>entry_filters := dm_insert (tf_filter tf) (tf_qos tf) (entry_filters entry)\<rparr>)
           (tree_subscribe cid (tf_filter tf) (tf_qos tf) t)
       in (Granted (tf_qos tf) # codes, e', t'))
    else (let (codes, e', t') = subscribe_loop cid tfs entry t in (Failure # codes, e', t')))"
  by (simp only: subscribe_loop.simps Let_def validate_case)

declare subscribe_loop.simps(2) [simp del]

lemma subscribe_loop_codes:
  "fst (subscribe_loop cid tfs entry t) =
   map (\<lambda>tf. if filter_ok (tf_filter tf) then Granted (tf_qos tf) else Failure) tfs"
  by (induction tfs arbitrary: entry t) (simp_all add: subscribe_loop_Cons case_prod_beta)

lemma subscribe_loop_entry:
  "entry_channel (fst (snd (subscribe_loop cid tfs entry t))) = entry_channel entry"
  "entry_will (fst (snd (subscribe_loop cid tfs entry t))) = entry_will entry"
  "entry_clean_session (fst (snd (subscribe_loop cid tfs entry t))) = entry_clean_session entry"
  by (induction tfs arbitrary: entry t) (simp_all add: subscribe_loop_Cons case_prod_beta)

lemma subscribe_loop_filters:
  "dm_get (entry_filters (fst (snd (subscribe_loop cid tfs entry t)))) =
   dm_get (entry_filters entry) ++ granted tfs"
  by (induction tfs arbitrary: entry t)
    (auto simp: subscribe_loop_Cons case_prod_beta fun_eq_iff map_add_def split: option.splits)

lemma subscribe_loop_tree_wf:
  "tree_wf t \<Longrightarrow> tree_wf (snd (snd (subscribe_loop cid tfs entry t)))"
  by (induction tfs arbitrary: entry t) (simp_all add: subscribe_loop_Cons case_prod_beta)

lemma subscribe_loop_tree:
  "tree_lookup (snd (snd (subscribe_loop cid tfs entry t))) f c =
   (if c = cid then ((\<lambda>f. tree_lookup t f cid) ++ granted tfs) f else tree_lookup t f c)"
  by (induction tfs arbitrary: entry t)
    (auto simp: subscribe_loop_Cons case_prod_beta map_add_def split: option.splits)

lemma unsubscribe_loop_entry:
  "entry_channel (fst (unsubscribe_loop cid ts entry t)) = entry_channel entry"
  "entry_will (fst (unsubscribe_loop cid ts entry t)) = entry_will entry"
  "entry_clean_session (fst (unsubscribe_loop cid ts entry t)) = entry_clean_session entry"
  by (induction ts arbitrary: entry t) (simp_all add: Let_def)

lemma unsubscribe_loop_filters:
  "dm_get (entry_filters (fst (unsubscribe_loop cid ts entry t))) f =
   (if f \<in> set ts then None else dm_get (entry_filters entry) f)"
  by (induction ts arbitrary: entry t) (simp_all add: Let_def)

lemma unsubscribe_loop_tree_wf: "tree_wf t \<Longrightarrow> tree_wf (snd (unsubscribe_loop cid ts entry t))"
  by (induction ts arbitrary: entry t) (simp_all add: Let_def)

lemma unsubscribe_loop_tree:
  "tree_lookup (snd (unsubscribe_loop cid ts entry t)) f c =
   (if c = cid \<and> f \<in> set ts then None else tree_lookup t f c)"
  by (induction ts arbitrary: entry t) (auto simp: Let_def)

lemma broker_subscribe_eq:
  "entry_of_connection cid conn b chs = Some e \<Longrightarrow>
   broker_subscribe cid conn tfs b chs =
     (fst (subscribe_loop cid tfs e (subscriptions b)),
      b\<lparr>sessions := dm_insert cid (fst (snd (subscribe_loop cid tfs e (subscriptions b)))) (sessions b),
        subscriptions := snd (snd (subscribe_loop cid tfs e (subscriptions b)))\<rparr>)"
  by (simp add: broker_subscribe_def case_prod_beta Let_def)

lemma broker_unsubscribe_eq:
  "entry_of_connection cid conn b chs = Some e \<Longrightarrow>
   broker_unsubscribe cid conn ts b chs =
      b\<lparr>sessions := dm_insert cid (fst (unsubscribe_loop cid ts e (subscriptions b))) (sessions b),
        subscriptions := snd (unsubscribe_loop cid ts e (subscriptions b))\<rparr>"
  by (simp add: broker_unsubscribe_def case_prod_beta Let_def)

lemma entry_of_connectionD:
  "entry_of_connection cid conn b chs = Some e \<Longrightarrow>
   dm_get (sessions b) cid = Some e \<and> ch_connection_id (chs (entry_channel e)) = conn"
  by (auto simp: entry_of_connection_def split: option.splits if_splits)

text \<open>Writing one entry and the tree, when the pair keeps what the invariant says of that client.\<close>

lemma broker_ok_write:
  assumes ok: "broker_ok b" and wf: "dm_wf (sessions b')" "tree_wf (subscriptions b')"
    and get: "dm_get (sessions b') = (dm_get (sessions b))(cid \<mapsto> e)"
    and chan: "\<And>c x. c \<noteq> cid \<Longrightarrow> dm_get (sessions b) c = Some x \<Longrightarrow> entry_channel x \<noteq> entry_channel e"
    and filters: "\<And>f q. dm_get (entry_filters e) f = Some q \<Longrightarrow> tree_lookup (subscriptions b') f cid = Some q"
    and mine: "\<And>f q. tree_lookup (subscriptions b') f cid = Some q \<Longrightarrow> filter_ok f"
    and others: "\<And>f c. c \<noteq> cid \<Longrightarrow> tree_lookup (subscriptions b') f c = tree_lookup (subscriptions b) f c"
  shows "broker_ok b'"
proof -
  have inj: "c1 = c2" if "dm_get (sessions b') c1 = Some e1" "dm_get (sessions b') c2 = Some e2"
    "entry_channel e1 = entry_channel e2" for c1 c2 e1 e2
    using that get chan [of c1 e1] chan [of c2 e2] broker_okD(3) [OF ok, of c1 e1 c2 e2]
    by (auto split: if_splits)
  have subs: "filter_ok f \<and> dm_get (sessions b') c \<noteq> None" if "tree_lookup (subscriptions b') f c = Some q" for f c q
    using that mine others [of c f] broker_okD(4,5) [OF ok, of f c q] get by (cases "c = cid") auto
  have ent: "tree_lookup (subscriptions b') f c = Some q"
    if "dm_get (sessions b') c = Some x" "dm_get (entry_filters x) f = Some q" for c x f q
    using that filters others [of c f] broker_okD(6) [OF ok, of c x f q] get by (cases "c = cid") auto
  show ?thesis unfolding broker_ok_def using wf inj subs ent by blast
qed

lemma entry_channel_unique:
  "broker_ok b \<Longrightarrow> dm_get (sessions b) cid = Some e \<Longrightarrow> c \<noteq> cid \<Longrightarrow> dm_get (sessions b) c = Some x \<Longrightarrow>
   entry_channel x \<noteq> entry_channel e"
  using broker_okD(3) by metis

lemma broker_ok_subscribe [inv_intros]:
  assumes "broker_ok b" shows "broker_ok (snd (broker_subscribe cid conn tfs b chs))"
proof (cases "entry_of_connection cid conn b chs")
  case None
  with assms show ?thesis by (simp add: broker_subscribe_def)
next
  case (Some e)
  note get = conjunct1 [OF entry_of_connectionD [OF Some]]
  show ?thesis
    unfolding broker_subscribe_eq [OF Some] snd_conv
    by (rule broker_ok_write [OF assms, where cid = cid and
          e = "fst (snd (subscribe_loop cid tfs e (subscriptions b)))"])
      (auto simp: subscribe_loop_entry subscribe_loop_filters subscribe_loop_tree map_add_Some_iff
        subscribe_loop_tree_wf broker_okD(1,2) [OF assms] dest: granted_filter_ok
        broker_okD(6) [OF assms get] broker_okD(4) [OF assms] entry_channel_unique [OF assms get])
qed

lemma broker_ok_unsubscribe [inv_intros]:
  assumes "broker_ok b" shows "broker_ok (broker_unsubscribe cid conn ts b chs)"
proof (cases "entry_of_connection cid conn b chs")
  case None
  with assms show ?thesis by (simp add: broker_unsubscribe_def)
next
  case (Some e)
  note get = conjunct1 [OF entry_of_connectionD [OF Some]]
  show ?thesis
    unfolding broker_unsubscribe_eq [OF Some]
    by (rule broker_ok_write [OF assms, where cid = cid and
          e = "fst (unsubscribe_loop cid ts e (subscriptions b))"])
      (auto simp: unsubscribe_loop_entry unsubscribe_loop_filters unsubscribe_loop_tree
        unsubscribe_loop_tree_wf broker_okD(1,2) [OF assms] split: if_splits
        dest: broker_okD(6) [OF assms get] broker_okD(4) [OF assms] entry_channel_unique [OF assms get])
qed

section \<open>Registering and unregistering\<close>

lemma register_session_parts:
  "fst (register_session ord cid ch will clean b chs) =
     (\<not> clean \<and> dm_get (sessions b) cid \<noteq> None)"
  "fst (snd (register_session ord cid ch will clean b chs)) =
     b\<lparr>sessions := dm_insert cid \<lparr>entry_channel = ch, entry_filters = [], entry_will = will,
          entry_clean_session = clean\<rparr> (dm_remove cid (sessions b)),
       subscriptions := (if clean then tree_remove_client cid (subscriptions b) else subscriptions b)\<rparr>"
  "snd (snd (register_session ord cid ch will clean b chs)) =
     (case dm_get (sessions b) cid of
        None \<Rightarrow> chs
      | Some prev \<Rightarrow>
          publish_will ord (entry_will prev) (b\<lparr>sessions := dm_remove cid (sessions b)\<rparr>)
            (chs(entry_channel prev := close (chs (entry_channel prev)))))"
  by (simp_all add: register_session_def Let_def split: option.splits)

lemma broker_ok_register [inv_intros]:
  assumes ok: "broker_ok b"
    and fresh: "\<And>c e. c \<noteq> cid \<Longrightarrow> dm_get (sessions b) c = Some e \<Longrightarrow> entry_channel e \<noteq> ch"
  shows "broker_ok (fst (snd (register_session ord cid ch will clean b chs)))"
  unfolding register_session_parts
  by (rule broker_ok_write [OF ok, where cid = cid and
        e = "\<lparr>entry_channel = ch, entry_filters = [], entry_will = will, entry_clean_session = clean\<rparr>"])
    (use fresh broker_okD(1,2) [OF ok] in \<open>auto split: if_splits dest: broker_okD(4) [OF ok]\<close>)

lemma chans_ok_register [inv_intros]:
  "chans_ok chs \<Longrightarrow> chans_ok (snd (snd (register_session ord cid ch will clean b chs)))"
  by (auto simp: register_session_parts chans_ok_publish_will chans_ok_upd channel_ok_close chans_ok_def
      split: option.splits intro!: chans_ok_publish_will [unfolded chans_ok_def, rule_format])

lemma broker_ok_remove:
  assumes "broker_ok b"
  shows "broker_ok (b\<lparr>sessions := dm_remove cid (sessions b),
    subscriptions := tree_remove_client cid (subscriptions b)\<rparr>)"
  unfolding broker_ok_def using broker_okD [OF assms] by (auto split: if_splits)

lemma unregister_session_eq:
  "dm_get (sessions b) cid = Some e \<Longrightarrow> ch_connection_id (chs (entry_channel e)) = conn \<Longrightarrow>
   unregister_session ord cid conn graceful b chs =
     (let b' = b\<lparr>sessions := dm_remove cid (sessions b),
                subscriptions := tree_remove_client cid (subscriptions b)\<rparr>
      in (b', if graceful then chs else publish_will ord (entry_will e) b' chs))"
  by (simp add: unregister_session_def Let_def)

lemma unregister_session_stale:
  "entry_of_connection cid conn b chs = None \<Longrightarrow> unregister_session ord cid conn graceful b chs = (b, chs)"
  by (auto simp: unregister_session_def entry_of_connection_def split: option.splits if_splits)

lemma unregister_cases:
  "unregister_session ord cid conn graceful b chs = (b, chs) \<or>
   (\<exists>e. entry_of_connection cid conn b chs = Some e)"
  using unregister_session_stale by (metis not_None_eq)

lemma broker_ok_unregister [inv_intros]:
  assumes "broker_ok b" shows "broker_ok (fst (unregister_session ord cid conn graceful b chs))"
  using unregister_cases [of ord cid conn graceful b chs]
  by (auto simp: assms unregister_session_eq Let_def broker_ok_remove dest!: entry_of_connectionD)

lemma chans_ok_unregister [inv_intros]:
  assumes "chans_ok chs" shows "chans_ok (snd (unregister_session ord cid conn graceful b chs))"
  using unregister_cases [of ord cid conn graceful b chs]
  by (auto simp: assms unregister_session_eq Let_def chans_ok_publish_will dest!: entry_of_connectionD)

section \<open>The broker as a transition system\<close>

text \<open>
  Everything the connections of a broker can make it do, each with whatever order the iterations
  take, interleaved with the steps of the connections themselves. A connection registers with its own
  channel, which no other session holds.
\<close>

inductive broker_step :: "broker \<times> chans \<Rightarrow> broker \<times> chans \<Rightarrow> bool" where
  b_register:
    "order_ok ord \<Longrightarrow> (\<forall>c e. c \<noteq> cid \<longrightarrow> dm_get (sessions b) c = Some e \<longrightarrow> entry_channel e \<noteq> r) \<Longrightarrow>
     broker_step (b, chs) (snd (register_session ord cid r will clean b chs))"
| b_unregister:
    "order_ok ord \<Longrightarrow> broker_step (b, chs) (unregister_session ord cid conn graceful b chs)"
| b_subscribe:
    "broker_step (b, chs) (snd (broker_subscribe cid conn tfs b chs), chs)"
| b_unsubscribe:
    "broker_step (b, chs) (broker_unsubscribe cid conn ts b chs, chs)"
| b_publish:
    "order_ok ord \<Longrightarrow> broker_step (b, chs) (b, publish ord source p b chs)"
| b_channel:
    "chan_step (chs r) l ch' \<Longrightarrow> broker_step (b, chs) (b, chs(r := ch'))"

inductive broker_reachable :: "broker \<times> chans \<Rightarrow> bool" where
  reach_init: "chans_ok chs \<Longrightarrow> broker_reachable (broker_build auth sf, chs)"
| reach_step: "broker_reachable s \<Longrightarrow> broker_step s s' \<Longrightarrow> broker_reachable s'"

lemma broker_step_ok:
  "broker_step s s' \<Longrightarrow> broker_ok (fst s) \<and> chans_ok (snd s) \<Longrightarrow> broker_ok (fst s') \<and> chans_ok (snd s')"
proof (induction rule: broker_step.induct)
  case (b_register ord cid b r chs will clean)
  then show ?case by (simp add: broker_ok_register chans_ok_register)
next
  case (b_channel chs r l ch' b)
  then show ?case using channel_ok_step [OF b_channel.hyps] by (simp add: chans_ok_def)
qed (simp_all add: inv_intros)

lemma broker_reachable_ok: "broker_reachable s \<Longrightarrow> broker_ok (fst s) \<and> chans_ok (snd s)"
proof (induction rule: broker_reachable.induct)
  case (reach_init chs auth sf)
  then show ?case by (simp add: broker_ok_build)
next
  case (reach_step s s')
  then show ?case using broker_step_ok by blast
qed

section \<open>A small broker for the concrete instances\<close>

definition plain_order :: iter_order where
  "plain_order = \<lparr>ord_filters = (\<lambda>xs. xs), ord_clients = rev\<rparr>"

definition fresh_chans :: chans where
  "fresh_chans r = fst (channel_new \<lparr>rd_bytes = [], rd_end = Stalled\<rparr> \<lparr>wr_bytes = [], wr_limit = None\<rparr>
     (None, None) ServerRole (word_of_nat r))"

definition sample_will :: will_message where
  "sample_will = \<lparr>will_topic = ''gone'', will_payload = [], will_qos = AtMostOnce, will_retain = False\<rparr>"

text \<open>One client, registered on channel 0 and subscribed to \<open>a/#\<close>.\<close>

definition sample_broker :: broker where
  "sample_broker =
     snd (broker_subscribe ''c'' 0 [\<lparr>tf_filter = ''a/#'', tf_qos = AtLeastOnce\<rparr>]
       (fst (snd (register_session plain_order ''c'' 0 (Some sample_will) True broker_accept_all fresh_chans)))
       fresh_chans)"

lemma plain_order_ok: "order_ok plain_order"
  by (simp add: order_ok_def plain_order_def permutes_entries_id permutes_entries_rev)

lemma chans_ok_fresh: "chans_ok fresh_chans"
  unfolding chans_ok_def fresh_chans_def by (blast intro: channel_ok_new)

lemma fresh_chans_simps [simp]:
  "ch_connection_id (fresh_chans r) = word_of_nat r" "ch_actor (fresh_chans r) = Selecting False"
  "ch_open (fresh_chans r)" "ch_cmds (fresh_chans r) = []" "ch_session (fresh_chans r) = session_new"
  by (simp_all add: fresh_chans_def channel_new_def next_connection_id_def)

lemma sample_reachable: "broker_reachable (sample_broker, fresh_chans)"
proof -
  have "broker_reachable (broker_accept_all, fresh_chans)"
    unfolding broker_accept_all_def by (rule reach_init) (rule chans_ok_fresh)
  from reach_step [OF this b_register [OF plain_order_ok, where r = 0 and cid = "''c''" and
        will = "Some sample_will" and clean = True]]
  have "broker_reachable (snd (register_session plain_order ''c'' 0 (Some sample_will) True
      broker_accept_all fresh_chans))"
    by (simp add: broker_accept_all_def broker_build_def)
  moreover have "snd (snd (register_session plain_order ''c'' 0 (Some sample_will) True
      broker_accept_all fresh_chans)) = fresh_chans"
    by (simp add: register_session_parts broker_accept_all_def broker_build_def)
  ultimately have "broker_reachable (fst (snd (register_session plain_order ''c'' 0 (Some sample_will) True
      broker_accept_all fresh_chans)), fresh_chans)"
    by (metis prod.collapse)
  from reach_step [OF this b_subscribe] show ?thesis unfolding sample_broker_def .
qed

lemma sample_broker_simps:
  "sessions sample_broker = [(''c'', \<lparr>entry_channel = 0, entry_filters = [(''a/#'', AtLeastOnce)],
     entry_will = Some sample_will, entry_clean_session = True\<rparr>)]"
  "subscriptions sample_broker = [(''a/#'', [(''c'', AtLeastOnce)])]"
proof -
  have "filter_ok ''a/#''"
    by (simp add: filter_ok_def MAX_TOPIC_LEN_def segments_of_def level_ok_def has_wildcard_def)
  then show "sessions sample_broker = [(''c'', \<lparr>entry_channel = 0, entry_filters = [(''a/#'', AtLeastOnce)],
       entry_will = Some sample_will, entry_clean_session = True\<rparr>)]"
    "subscriptions sample_broker = [(''a/#'', [(''c'', AtLeastOnce)])]"
    by (simp_all add: sample_broker_def broker_subscribe_def entry_of_connection_def register_session_parts
        broker_accept_all_def broker_build_def subscribe_loop_Cons tree_subscribe_def tree_remove_client_def
        tree_new_def dm_insert_def dm_get_def dm_remove_def)
qed

lemma sample_lookup:
  "tree_lookup (subscriptions sample_broker) f c = (if f = ''a/#'' \<and> c = ''c'' then Some AtLeastOnce else None)"
  by (simp add: sample_broker_simps tree_lookup_def dm_get_def)

section \<open>Properties\<close>





text \<open>
  C6: a publish reaches exactly the subscribers it should, exactly as often as it should. For every
  registered client but the publisher, whose connection can still be written to, the commands queued
  on its channel are extended by one PUBLISH for each of its subscriptions whose filter matches the
  topic, at the smaller of the two qualities of service, with the same topic and payload, the
  duplicate and retain flags off, no packet id at QoS 0 and a non-zero one otherwise. Every other
  channel, the publisher's included, is left as it is.
\<close>

theorem fanout_exact:
  assumes "broker_reachable (b, chs)" and "order_ok ord"
  shows "(\<forall>c e. dm_get (sessions b) c = Some e \<longrightarrow> c \<noteq> source \<longrightarrow>
      ch_actor (chs (entry_channel e)) \<noteq> Stopped \<longrightarrow>
      (\<exists>qs ids. mset qs = matching_qos (subscriptions b) c (pub_topic p) \<and> length ids = length qs \<and>
        ch_cmds (publish ord source p b chs (entry_channel e)) = ch_cmds (chs (entry_channel e)) @
          map2 (\<lambda>q i. CmdPublish (adjusted_packet p (min (pub_qos p) q) i)) qs ids \<and>
        list_all2 (\<lambda>q i. (i = None \<longleftrightarrow> min (pub_qos p) q = AtMostOnce) \<and> i \<noteq> Some 0) qs ids)) \<and>
    (\<forall>r. (\<forall>c e. dm_get (sessions b) c = Some e \<longrightarrow> c \<noteq> source \<longrightarrow> entry_channel e \<noteq> r) \<longrightarrow>
      publish ord source p b chs r = chs r)"
proof (intro conjI allI impI)
  fix c e
  assume c: "dm_get (sessions b) c = Some e" "c \<noteq> source" "ch_actor (chs (entry_channel e)) \<noteq> Stopped"
  have ok: "broker_ok b" using broker_reachable_ok [OF assms(1)] by simp
  from publish_client [OF ok assms(2) c(1,2)] obtain qs where
    qs: "mset qs = matching_qos (subscriptions b) c (pub_topic p)" and
    eq: "publish ord source p b chs (entry_channel e) = fold (deliver_to p) qs (chs (entry_channel e))" by blast
  show "\<exists>qs ids. mset qs = matching_qos (subscriptions b) c (pub_topic p) \<and>
      length ids = length qs \<and>
      ch_cmds (publish ord source p b chs (entry_channel e)) = ch_cmds (chs (entry_channel e)) @
        map2 (\<lambda>q i. CmdPublish (adjusted_packet p (min (pub_qos p) q) i)) qs ids \<and>
      list_all2 (\<lambda>q i. (i = None \<longleftrightarrow> min (pub_qos p) q = AtMostOnce) \<and> i \<noteq> Some 0) qs ids"
    unfolding eq using qs fold_deliver_to_cmds [OF c(3), of p qs] by blast
next
  fix r
  assume "\<forall>c e. dm_get (sessions b) c = Some e \<longrightarrow> c \<noteq> source \<longrightarrow> entry_channel e \<noteq> r"
  then show "publish ord source p b chs r = chs r" by (intro publish_other) blast
qed

lemma sample_matching: "matching_qos (subscriptions sample_broker) ''c'' ''a/b'' = {#AtLeastOnce#}"
proof -
  have "{f. filter_matches f (segments_of ''a/b'') \<and> tree_lookup (subscriptions sample_broker) f ''c'' \<noteq> None} = {''a/#''}"
    by (auto simp: sample_lookup filter_matches_eq segments_of_def admits_def)
  then show ?thesis by (simp add: matching_qos_def sample_lookup)
qed

theorem fanout_exact_witness:
  "let p = \<lparr>pub_topic = ''a/b'', pub_payload = [1, 2], pub_dup = True, pub_qos = ExactlyOnce, pub_retain = True,
       pub_packet_id = Some 9\<rparr>
   in (\<exists>i. i \<noteq> 0 \<and> ch_cmds (publish plain_order ''p'' p sample_broker fresh_chans 0) =
        [CmdPublish (adjusted_packet p AtLeastOnce (Some i))]) \<and>
      publish plain_order ''p'' p sample_broker fresh_chans 1 = fresh_chans 1"
proof -
  define p where "p = \<lparr>pub_topic = ''a/b'', pub_payload = [1, 2], pub_dup = True, pub_qos = ExactlyOnce,
     pub_retain = True, pub_packet_id = Some 9\<rparr>"
  have p: "pub_topic p = ''a/b''" "pub_qos p = ExactlyOnce" by (simp_all add: p_def)
  have m: "matching_qos (subscriptions sample_broker) ''c'' (pub_topic p) = {#AtLeastOnce#}"
    by (simp add: p sample_matching)
  obtain e where e: "dm_get (sessions sample_broker) ''c'' = Some e" "entry_channel e = 0"
    by (simp add: sample_broker_simps dm_get_def)
  note fan = fanout_exact [OF sample_reachable plain_order_ok, of "''p''" p]
  from fan e m obtain qs ids where out: "mset qs = {#AtLeastOnce#}" "length ids = length qs"
    "ch_cmds (publish plain_order ''p'' p sample_broker fresh_chans 0) =
      map2 (\<lambda>q i. CmdPublish (adjusted_packet p (min (pub_qos p) q) i)) qs ids"
    "list_all2 (\<lambda>q i. (i = None \<longleftrightarrow> min (pub_qos p) q = AtMostOnce) \<and> i \<noteq> Some 0) qs ids"
    by fastforce
  from out(1,2) obtain i where "qs = [AtLeastOnce]" "ids = [i]" by (auto simp: length_Suc_conv)
  moreover have "min ExactlyOnce AtLeastOnce = AtLeastOnce"
    by (simp add: min_def less_eq_qos_def word_le_nat_alt)
  moreover have "publish plain_order ''p'' p sample_broker fresh_chans 1 = fresh_chans 1"
    using fan by (simp add: sample_broker_simps dm_get_def)
  ultimately show ?thesis
    using out p unfolding Let_def p_def [symmetric] by (cases i) auto
qed

text \<open>
  C10: a second CONNECT with a connected client id takes the session over. The earlier channel is
  closed and everybody waiting on it is resolved; its Will is published to the other clients; the
  table now names the new channel, with as many sessions as before; the client's subscriptions
  are kept exactly when a clean session was not asked for, which is also when session-present is
  reported; and when the earlier connection tears itself down afterwards, nothing changes.
\<close>

theorem takeover:
  assumes "broker_reachable (b, chs)" and "dm_get (sessions b) cid = Some prev"
    and "is_open (chs (entry_channel prev))"
    and "ch_connection_id (chs r) \<noteq> ch_connection_id (chs (entry_channel prev))"
    and "register_session ord cid r will clean b chs = (present, b', chs')"
  shows "present = (\<not> clean) \<and>
    \<not> is_open (chs' (entry_channel prev)) \<and> oneshots (ch_session (chs' (entry_channel prev))) x \<noteq> Waiting \<and>
    chs' = publish_will ord (entry_will prev) (b\<lparr>sessions := dm_remove cid (sessions b)\<rparr>)
      (chs(entry_channel prev := close (chs (entry_channel prev)))) \<and>
    dm_get (sessions b') = (dm_get (sessions b))(cid \<mapsto>
      \<lparr>entry_channel = r, entry_filters = [], entry_will = will, entry_clean_session = clean\<rparr>) \<and>
    tree_lookup (subscriptions b') f c =
      (if clean \<and> c = cid then None else tree_lookup (subscriptions b) f c) \<and>
    unregister_session ord' cid (ch_connection_id (chs (entry_channel prev))) graceful b' chs' = (b', chs')"
proof -
  let ?old = "entry_channel prev"
  note parts = register_session_parts [of ord cid r will clean b chs, unfolded assms(5) fst_conv snd_conv]
  have chs': "chs' = publish_will ord (entry_will prev) (b\<lparr>sessions := dm_remove cid (sessions b)\<rparr>)
      (chs(?old := close (chs ?old)))"
    using parts(3) assms(2) by simp
  have "session_ok (ch_session (chs ?old))"
    using broker_reachable_ok [OF assms(1)] by (simp add: chans_ok_def channel_ok_def)
  then have "oneshots (ch_session (close (chs ?old))) x \<noteq> Waiting"
    using assms(3) oneshots_abandon [of "ch_session (chs ?old)" x] by (simp add: close_session is_open_def)
  moreover have "entry_of_connection cid (ch_connection_id (chs ?old)) b' chs' = None"
    using assms(4) by (auto simp: entry_of_connection_def parts(2) chs')
  ultimately show ?thesis
    using parts(1,2) assms(2) chs' unregister_session_stale [of cid _ b' chs']
    by (simp add: is_open_def)
qed

theorem takeover_witness:
  "let (present, b', chs') = register_session plain_order ''c'' 1 None False sample_broker fresh_chans
   in present \<and> \<not> is_open (chs' 0) \<and> is_open (chs' 1) \<and>
      tree_lookup (subscriptions b') ''a/#'' ''c'' = Some AtLeastOnce \<and>
      unregister_session plain_order ''c'' 0 False b' chs' = (b', chs')"
proof -
  obtain present b' chs' where reg:
    "register_session plain_order ''c'' 1 None False sample_broker fresh_chans = (present, b', chs')"
    by (metis prod_cases3)
  obtain e where e: "dm_get (sessions sample_broker) ''c'' = Some e" "entry_channel e = 0"
    by (simp add: sample_broker_simps dm_get_def)
  have "is_open (chs' 1)"
    using register_session_parts(3) [of plain_order "''c''" 1 None False sample_broker fresh_chans] reg e
    by (simp add: is_open_def)
  moreover have "present = (\<not> False) \<and> \<not> is_open (chs' (entry_channel e)) \<and>
      tree_lookup (subscriptions b') ''a/#'' ''c'' =
        (if False \<and> ''c'' = ''c'' then None else tree_lookup (subscriptions sample_broker) ''a/#'' ''c'') \<and>
      unregister_session plain_order ''c'' (ch_connection_id (fresh_chans (entry_channel e))) False b' chs' =
        (b', chs')"
  proof -
    have "is_open (fresh_chans (entry_channel e))" by (simp add: is_open_def)
    moreover have "ch_connection_id (fresh_chans 1) \<noteq> ch_connection_id (fresh_chans (entry_channel e))"
      by (simp add: e(2))
    ultimately show ?thesis
      using takeover [OF sample_reachable e(1) _ _ reg, of 0 "''a/#''" "''c''" plain_order False] by blast
  qed
  ultimately show ?thesis unfolding reg by (simp add: e(2) sample_lookup)
qed

text \<open>
  A connection that no longer holds its client id cannot touch the session that replaced it, nor
  any other: its teardown, its UNSUBSCRIBE and its SUBSCRIBE leave the broker as it is, and the
  SUBSCRIBE is answered with a failure for every filter.
\<close>

theorem stale_connection_is_inert:
  assumes "\<forall>e. dm_get (sessions b) cid = Some e \<longrightarrow> ch_connection_id (chs (entry_channel e)) \<noteq> conn"
  shows "unregister_session ord cid conn graceful b chs = (b, chs) \<and>
    broker_unsubscribe cid conn topics b chs = b \<and>
    broker_subscribe cid conn tfs b chs = (replicate (length tfs) Failure, b)"
proof -
  have none: "entry_of_connection cid conn b chs = None"
    using assms by (auto simp: entry_of_connection_def split: option.splits)
  then show ?thesis
    by (simp add: unregister_session_stale broker_unsubscribe_def broker_subscribe_def map_replicate_const)
qed

theorem stale_connection_is_inert_witness:
  "unregister_session plain_order ''c'' 5 False sample_broker fresh_chans = (sample_broker, fresh_chans) \<and>
   broker_subscribe ''c'' 5 [\<lparr>tf_filter = ''x'', tf_qos = AtMostOnce\<rparr>] sample_broker fresh_chans =
     ([Failure], sample_broker)"
  using stale_connection_is_inert [of sample_broker "''c''" fresh_chans 5 plain_order False "[]"
      "[\<lparr>tf_filter = ''x'', tf_qos = AtMostOnce\<rparr>]"]
  by (simp add: sample_broker_simps dm_get_def)

text \<open>
  Tearing a session down leaves nothing of it behind. Its entry is gone and the others are kept,
  it has no subscription in the tree and no publish will match it, the others keep theirs; the Will
  is published, after the session is gone, exactly when the connection did not end gracefully.
\<close>

theorem unregister_leaves_nothing:
  assumes "broker_reachable (b, chs)" and "dm_get (sessions b) cid = Some e"
    and "ch_connection_id (chs (entry_channel e)) = conn" and "order_ok ord'"
    and "unregister_session ord cid conn graceful b chs = (b', chs')"
  shows "dm_get (sessions b') = (dm_get (sessions b))(cid := None) \<and>
    session_count b = Suc (session_count b') \<and>
    tree_lookup (subscriptions b') f c = (if c = cid then None else tree_lookup (subscriptions b) f c) \<and>
    cid \<notin> fst ` set (tree_matching ord' (subscriptions b') topic) \<and>
    chs' = (if graceful then chs else publish_will ord (entry_will e) b' chs)"
proof -
  have ok: "broker_ok b" using broker_reachable_ok [OF assms(1)] by simp
  have eqs: "sessions b' = dm_remove cid (sessions b)"
    "subscriptions b' = tree_remove_client cid (subscriptions b)"
    "chs' = (if graceful then chs else publish_will ord (entry_will e) b' chs)"
    using assms(5) unregister_session_eq [of b cid e chs conn ord graceful, OF assms(2,3)] by (auto simp: Let_def)
  have "length (sessions b) = Suc (length (dm_remove cid (sessions b)))"
  proof -
    have d: "distinct (sessions b)" "distinct (dm_remove cid (sessions b))"
      using broker_okD(1) [OF ok] dm.invar_remove [of "sessions b" cid]
      by (auto simp: dm_wf_def distinct_map)
    have "card (set (sessions b) - {(cid, e)}) = card (set (sessions b)) - 1"
      using dm_get_SomeD [OF assms(2)] by (simp add: card_Diff_singleton)
    moreover have "0 < card (set (sessions b))" using dm_get_SomeD [OF assms(2)] by (auto simp: card_gt_0_iff)
    ultimately show ?thesis
      using d set_dm_remove_get [OF broker_okD(1) [OF ok] assms(2)] by (simp flip: distinct_card)
  qed
  then show ?thesis
    using eqs tree.removed_never_matched [OF broker_okD(2) [OF ok] assms(4)]
    by (simp add: session_count_def)
qed

theorem unregister_leaves_nothing_witness:
  "let (b', chs') = unregister_session plain_order ''c'' 0 True sample_broker fresh_chans
   in session_count sample_broker = Suc (session_count b') \<and>
      ''c'' \<notin> fst ` set (tree_matching plain_order (subscriptions b') ''a/b'') \<and> chs' = fresh_chans"
proof -
  obtain b' chs' where un:
    "unregister_session plain_order ''c'' 0 True sample_broker fresh_chans = (b', chs')"
    by (metis prod.collapse)
  obtain e where e: "dm_get (sessions sample_broker) ''c'' = Some e" "entry_channel e = 0"
    by (simp add: sample_broker_simps dm_get_def)
  from unregister_leaves_nothing [OF sample_reachable e(1) _ plain_order_ok un] e un show ?thesis
    by simp
qed

text \<open>
  Subscribing and unsubscribing are updates of one relation. The codes answer the filters one by
  one, granted with the requested quality of service exactly when the filter is well-formed. After
  SUBSCRIBE the client holds the granted filters on top of what it held, the last mention of a filter
  winning; after UNSUBSCRIBE it holds none of the named ones. Other clients keep their subscriptions,
  and the entry of the client records the same change.
\<close>

theorem subscriptions_as_relation:
  assumes "broker_reachable (b, chs)" and "dm_get (sessions b) cid = Some e"
    and "ch_connection_id (chs (entry_channel e)) = conn"
    and "broker_subscribe cid conn tfs b chs = (codes, b1)" and "broker_unsubscribe cid conn topics b chs = b2"
  shows "codes = map (\<lambda>tf. if filter_ok (tf_filter tf) then Granted (tf_qos tf) else Failure) tfs \<and>
    tree_lookup (subscriptions b1) f c =
      (if c = cid then ((\<lambda>f. tree_lookup (subscriptions b) f cid) ++ granted tfs) f
       else tree_lookup (subscriptions b) f c) \<and>
    tree_lookup (subscriptions b2) f c =
      (if c = cid \<and> f \<in> set topics then None else tree_lookup (subscriptions b) f c) \<and>
    map_option (\<lambda>e. dm_get (entry_filters e) f) (dm_get (sessions b1) cid) =
      Some ((dm_get (entry_filters e) ++ granted tfs) f) \<and>
    map_option (\<lambda>e. dm_get (entry_filters e) f) (dm_get (sessions b2) cid) =
      Some (if f \<in> set topics then None else dm_get (entry_filters e) f)"
proof -
  have e: "entry_of_connection cid conn b chs = Some e"
    using assms(2,3) by (simp add: entry_of_connection_def)
  have b1: "b1 = snd (broker_subscribe cid conn tfs b chs)" "codes = fst (broker_subscribe cid conn tfs b chs)"
    using assms(4) by simp_all
  show ?thesis
    unfolding b1 assms(5) [symmetric] broker_subscribe_eq [OF e] broker_unsubscribe_eq [OF e]
    by (simp add: subscribe_loop_codes subscribe_loop_tree subscribe_loop_filters
        unsubscribe_loop_tree unsubscribe_loop_filters)
qed

theorem subscriptions_as_relation_witness:
  "let tfs = [\<lparr>tf_filter = ''x/+'', tf_qos = ExactlyOnce\<rparr>, \<lparr>tf_filter = ''x+'', tf_qos = AtMostOnce\<rparr>];
       (codes, b1) = broker_subscribe ''c'' 0 tfs sample_broker fresh_chans
   in codes = [Granted ExactlyOnce, Failure] \<and>
      tree_lookup (subscriptions b1) ''a/#'' ''c'' = Some AtLeastOnce"
proof -
  define tfs where "tfs = [\<lparr>tf_filter = ''x/+'', tf_qos = ExactlyOnce\<rparr>, \<lparr>tf_filter = ''x+'', tf_qos = AtMostOnce\<rparr>]"
  obtain e where e: "dm_get (sessions sample_broker) ''c'' = Some e" "entry_channel e = 0"
    by (simp add: sample_broker_simps dm_get_def)
  obtain codes b1 where sub: "broker_subscribe ''c'' 0 tfs sample_broker fresh_chans = (codes, b1)"
    by (metis prod.collapse)
  have ok: "filter_ok ''x/+''" "\<not> filter_ok ''x+''"
    by (simp_all add: filter_ok_def MAX_TOPIC_LEN_def segments_of_def level_ok_def has_wildcard_def)
  have "granted tfs ''a/#'' = None" using ok by (simp add: tfs_def)
  with subscriptions_as_relation [OF sample_reachable e(1) _ sub refl, of "''a/#''" "''c''"] e ok sub
  show ?thesis by (simp add: Let_def tfs_def [symmetric] sample_lookup map_add_def) (simp add: tfs_def)
qed

text \<open>
  Wildcards at the first level reach the server's own topics. The filter \<open>#\<close> matches every topic,
  and a filter that begins with the level \<open>+\<close> matches whatever the first level of the topic is, also
  one that begins with \<open>$\<close>, which section 4.7.2 of the specification excludes.
\<close>

theorem wildcards_match_dollar_topics:
  "filter_matches ''#'' (segments_of topic) \<and>
   filter_matches ''+/#'' (segments_of (''$SYS/'' @ rest))"
  by (simp add: filter_matches_eq segments_of_def admits_def split: list.splits)

end
