(* ===== verification/Mqtt_Broker_Spec.thy ===== *)
theory Mqtt_Broker_Spec
  imports Mqtt_Broker_Properties
begin

text \<open>
  What a broker promises, without its tables: a publish/subscribe service whose state is who is
  connected and who holds which filter. The broker's operations, labelled with what was asked and with
  what each client was sent, are shown to be steps of that service, for every interleaving of the
  connections.
\<close>

section \<open>The abstract service\<close>

text \<open>A message as a subscriber sees it: topic, payload and quality of service.\<close>

type_synonym delivery = "rstr \<times> u8 list \<times> qos"
type_synonym deliveries = "rstr \<Rightarrow> delivery multiset"

text \<open>
  What can happen: a client connects (on a channel, under a connection id, with its Will and its choice
  of a clean session, and is told whether a session was present), a connection of a client ends, a
  connection subscribes and is told the codes, or unsubscribes, a client publishes, or a connection makes a
  move of its own.
\<close>

datatype broker_event =
    EConnect rstr nat u64 "will_message option" bool bool
  | EDisconnect rstr u64 bool
  | ESubscribe rstr u64 "topic_filter list" "suback_code list"
  | EUnsubscribe rstr u64 "rstr list"
  | EPublish rstr publish_packet
  | EInternal

record ps_session =
  pss_channel :: nat
  pss_conn :: u64
  pss_will :: "will_message option"

record pubsub =
  ps_sessions :: "rstr \<Rightarrow> ps_session option"
  ps_subs :: "rstr \<Rightarrow> rstr \<Rightarrow> qos option"
  ps_open :: "nat set"
  ps_dead :: "nat set"

text \<open>
  A message goes to every connected client but its source, once per filter that matches, unless the
  client's connection can no longer be written to.
\<close>

definition ps_matching :: "pubsub \<Rightarrow> rstr \<Rightarrow> rstr \<Rightarrow> rstr set" where
  "ps_matching ps c topic = {f. ps_subs ps c f \<noteq> None \<and> matches_spec (segments_of f) (segments_of topic)}"

definition ps_deliver :: "rstr \<Rightarrow> rstr \<Rightarrow> u8 list \<Rightarrow> qos \<Rightarrow> pubsub \<Rightarrow> deliveries" where
  "ps_deliver source topic payload q ps c =
     (case ps_sessions ps c of
        None \<Rightarrow> {#}
      | Some s \<Rightarrow>
          if c = source \<or> pss_channel s \<in> ps_dead ps then {#}
          else image_mset (\<lambda>f. (topic, payload, min q (the (ps_subs ps c f)))) (mset_set (ps_matching ps c topic)))"

definition ps_deliver_will :: "will_message option \<Rightarrow> pubsub \<Rightarrow> deliveries" where
  "ps_deliver_will will ps =
     (case will of
        None \<Rightarrow> (\<lambda>_. {#})
      | Some w \<Rightarrow> ps_deliver '''' (will_topic w) (will_payload w) (will_qos w) ps)"

definition ps_holds :: "pubsub \<Rightarrow> rstr \<Rightarrow> u64 \<Rightarrow> bool" where
  "ps_holds ps cid conn \<longleftrightarrow> (\<exists>s. ps_sessions ps cid = Some s \<and> pss_conn s = conn)"

text \<open>An earlier connection of the same client is closed, and the client is nobody until it is entered again.\<close>

definition ps_drop :: "rstr \<Rightarrow> pubsub \<Rightarrow> pubsub" where
  "ps_drop cid ps =
     ps\<lparr>ps_sessions := (ps_sessions ps)(cid := None),
        ps_open := ps_open ps - pss_channel ` set_option (ps_sessions ps cid)\<rparr>"

definition ps_enter :: "rstr \<Rightarrow> nat \<Rightarrow> u64 \<Rightarrow> will_message option \<Rightarrow> bool \<Rightarrow> pubsub \<Rightarrow> pubsub" where
  "ps_enter cid r conn will clean ps =
     ps\<lparr>ps_sessions := (ps_sessions ps)(cid \<mapsto> \<lparr>pss_channel = r, pss_conn = conn, pss_will = will\<rparr>),
        ps_subs := (if clean then (ps_subs ps)(cid := Map.empty) else ps_subs ps)\<rparr>"

definition ps_forget :: "rstr \<Rightarrow> pubsub \<Rightarrow> pubsub" where
  "ps_forget cid ps =
     ps\<lparr>ps_sessions := (ps_sessions ps)(cid := None), ps_subs := (ps_subs ps)(cid := Map.empty)\<rparr>"

definition ps_will_of :: "pubsub \<Rightarrow> rstr \<Rightarrow> will_message option" where
  "ps_will_of ps cid = Option.bind (ps_sessions ps cid) pss_will"

inductive ps_step :: "pubsub \<Rightarrow> broker_event \<times> deliveries \<Rightarrow> pubsub \<Rightarrow> bool" where
  ps_connect:
    "\<forall>c s. c \<noteq> cid \<longrightarrow> ps_sessions ps c = Some s \<longrightarrow> pss_channel s \<noteq> r \<Longrightarrow>
     ps_step ps
       (EConnect cid r conn will clean (\<not> clean \<and> ps_sessions ps cid \<noteq> None),
        ps_deliver_will (ps_will_of ps cid) (ps_drop cid ps))
       (ps_enter cid r conn will clean (ps_drop cid ps))"
| ps_disconnect:
    "ps_holds ps cid conn \<Longrightarrow>
     ps_step ps
       (EDisconnect cid conn graceful,
        if graceful then (\<lambda>_. {#}) else ps_deliver_will (ps_will_of ps cid) (ps_forget cid ps))
       (ps_forget cid ps)"
| ps_disconnect_stale:
    "\<not> ps_holds ps cid conn \<Longrightarrow> ps_step ps (EDisconnect cid conn graceful, \<lambda>_. {#}) ps"
| ps_subscribe:
    "ps_holds ps cid conn \<Longrightarrow>
     ps_step ps
       (ESubscribe cid conn tfs (map (\<lambda>tf. if filter_ok (tf_filter tf) then Granted (tf_qos tf) else Failure) tfs),
        \<lambda>_. {#})
       (ps\<lparr>ps_subs := (ps_subs ps)(cid := ps_subs ps cid ++ granted tfs)\<rparr>)"
| ps_subscribe_stale:
    "\<not> ps_holds ps cid conn \<Longrightarrow>
     ps_step ps (ESubscribe cid conn tfs (map (\<lambda>_. Failure) tfs), \<lambda>_. {#}) ps"
| ps_unsubscribe:
    "ps_holds ps cid conn \<Longrightarrow>
     ps_step ps (EUnsubscribe cid conn topics, \<lambda>_. {#})
       (ps\<lparr>ps_subs := (ps_subs ps)(cid := ps_subs ps cid |` (- set topics))\<rparr>)"
| ps_unsubscribe_stale:
    "\<not> ps_holds ps cid conn \<Longrightarrow> ps_step ps (EUnsubscribe cid conn topics, \<lambda>_. {#}) ps"
| ps_publish:
    "ps_step ps (EPublish source p, ps_deliver source (pub_topic p) (pub_payload p) (pub_qos p) ps) ps"
| ps_internal:
    "still_open \<subseteq> ps_open ps \<Longrightarrow> ps_dead ps \<subseteq> dead \<Longrightarrow>
     ps_step ps (EInternal, \<lambda>_. {#}) (ps\<lparr>ps_open := still_open, ps_dead := dead\<rparr>)"

section \<open>The broker, observed\<close>

fun delivery_of :: "write_cmd \<Rightarrow> delivery list" where
  "delivery_of (CmdPublish p) = [(pub_topic p, pub_payload p, pub_qos p)]"
| "delivery_of _ = []"

text \<open>What an operation has put on the queue of every client that is connected after it.\<close>

definition new_commands :: "chans \<Rightarrow> chans \<Rightarrow> nat \<Rightarrow> write_cmd list" where
  "new_commands chs chs' r = drop (length (ch_cmds (chs r))) (ch_cmds (chs' r))"

definition sent_to :: "broker \<Rightarrow> chans \<Rightarrow> chans \<Rightarrow> deliveries" where
  "sent_to b chs chs' c =
     (case dm_get (sessions b) c of
        None \<Rightarrow> {#}
      | Some e \<Rightarrow> mset (concat (map delivery_of (new_commands chs chs' (entry_channel e)))))"

inductive broker_act :: "broker \<times> chans \<Rightarrow> broker_event \<times> deliveries \<Rightarrow> broker \<times> chans \<Rightarrow> bool" where
  a_register:
    "order_ok ord \<Longrightarrow> (\<forall>c e. c \<noteq> cid \<longrightarrow> dm_get (sessions b) c = Some e \<longrightarrow> entry_channel e \<noteq> r) \<Longrightarrow>
     register_session ord cid r will clean b chs = (present, b', chs') \<Longrightarrow>
     broker_act (b, chs) (EConnect cid r (ch_connection_id (chs r)) will clean present, sent_to b' chs chs') (b', chs')"
| a_unregister:
    "order_ok ord \<Longrightarrow> unregister_session ord cid conn graceful b chs = (b', chs') \<Longrightarrow>
     broker_act (b, chs) (EDisconnect cid conn graceful, sent_to b' chs chs') (b', chs')"
| a_subscribe:
    "broker_subscribe cid conn tfs b chs = (codes, b') \<Longrightarrow>
     broker_act (b, chs) (ESubscribe cid conn tfs codes, sent_to b' chs chs) (b', chs)"
| a_unsubscribe:
    "broker_unsubscribe cid conn topics b chs = b' \<Longrightarrow>
     broker_act (b, chs) (EUnsubscribe cid conn topics, sent_to b' chs chs) (b', chs)"
| a_publish:
    "order_ok ord \<Longrightarrow> publish ord source p b chs = chs' \<Longrightarrow>
     broker_act (b, chs) (EPublish source p, sent_to b chs chs') (b, chs')"
| a_channel:
    "chan_step (chs r) l ch' \<Longrightarrow> broker_act (b, chs) (EInternal, \<lambda>_. {#}) (b, chs(r := ch'))"

text \<open>The labels add nothing to the broker's steps and take nothing away.\<close>

lemma broker_step_labelled: "broker_step s s' \<longleftrightarrow> (\<exists>l. broker_act s l s')"
proof
  assume "broker_step s s'"
  then show "\<exists>l. broker_act s l s'"
  proof cases
    case (b_register ord cid b r chs will clean)
    then show ?thesis by (metis a_register prod.collapse)
  next
    case (b_unregister ord b chs cid conn graceful)
    then show ?thesis by (metis a_unregister prod.collapse)
  next
    case (b_subscribe b chs cid conn tfs)
    then show ?thesis by (metis a_subscribe prod.collapse)
  qed (blast intro: a_unsubscribe a_publish a_channel)+
next
  assume "\<exists>l. broker_act s l s'"
  then obtain l where "broker_act s l s'" ..
  then show "broker_step s s'"
  proof cases
    case (a_register ord cid b r will clean chs present b' chs')
    then show ?thesis using b_register [of ord cid b r chs will clean] by simp
  next
    case (a_unregister ord cid conn graceful b chs b' chs')
    then show ?thesis using b_unregister [of ord b chs cid conn graceful] by simp
  next
    case (a_subscribe cid conn tfs b chs codes b')
    then show ?thesis using b_subscribe [of b chs cid conn tfs] by simp
  qed (auto intro: b_unsubscribe b_publish b_channel)
qed

text \<open>The service a broker and its channels implement.\<close>

definition session_of :: "chans \<Rightarrow> subscriber_entry \<Rightarrow> ps_session" where
  "session_of chs e =
     \<lparr>pss_channel = entry_channel e, pss_conn = ch_connection_id (chs (entry_channel e)), pss_will = entry_will e\<rparr>"

definition pubsub_of :: "broker \<times> chans \<Rightarrow> pubsub" where
  "pubsub_of s =
     (let (b, chs) = s in
      \<lparr>ps_sessions = (\<lambda>c. map_option (session_of chs) (dm_get (sessions b) c)),
       ps_subs = (\<lambda>c f. tree_lookup (subscriptions b) f c),
       ps_open = {r. ch_open (chs r)}, ps_dead = {r. ch_actor (chs r) = Stopped}\<rparr>)"

section \<open>The observations are the service's\<close>

lemma pubsub_of_simps [simp]:
  "ps_sessions (pubsub_of (b, chs)) = (\<lambda>c. map_option (session_of chs) (dm_get (sessions b) c))"
  "ps_subs (pubsub_of (b, chs)) = (\<lambda>c f. tree_lookup (subscriptions b) f c)"
  "ps_open (pubsub_of (b, chs)) = {r. ch_open (chs r)}"
  "ps_dead (pubsub_of (b, chs)) = {r. ch_actor (chs r) = Stopped}"
  by (simp_all add: pubsub_of_def)

lemma session_of_simps [simp]:
  "pss_channel (session_of chs e) = entry_channel e"
  "pss_conn (session_of chs e) = ch_connection_id (chs (entry_channel e))"
  "pss_will (session_of chs e) = entry_will e"
  by (simp_all add: session_of_def)

lemma pubsub_eqI:
  "ps_sessions x = ps_sessions y \<Longrightarrow> ps_subs x = ps_subs y \<Longrightarrow> ps_open x = ps_open y \<Longrightarrow> ps_dead x = ps_dead y \<Longrightarrow>
   x = (y :: pubsub)"
  by simp

lemma ps_holds_pubsub_of: "ps_holds (pubsub_of (b, chs)) cid conn \<longleftrightarrow> entry_of_connection cid conn b chs \<noteq> None"
  by (auto simp: ps_holds_def entry_of_connection_def split: option.splits)

lemma deliver_to_dead: "ch_actor ch = Stopped \<Longrightarrow> ch_cmds (deliver_to p q ch) = ch_cmds ch"
  by (simp add: deliver_to_def send_publish_def Let_def with_session_def case_prod_beta)

lemma fold_deliver_to_dead: "ch_actor ch = Stopped \<Longrightarrow> ch_cmds (fold (deliver_to p) qs ch) = ch_cmds ch"
  by (induction qs arbitrary: ch) (simp_all add: deliver_to_dead)

lemma deliveries_of_adjusted:
  "length ids = length qs \<Longrightarrow>
   concat (map delivery_of (map2 (\<lambda>q i. CmdPublish (adjusted_packet p (min k q) i)) qs ids)) =
   map (\<lambda>q. (pub_topic p, pub_payload p, min k q)) qs"
  by (induction ids qs rule: list_induct2) (simp_all add: adjusted_packet_def)

text \<open>The queue of one client after a publish, as deliveries.\<close>

lemma fold_deliver_to_sent:
  assumes "ch_actor ch \<noteq> Stopped"
  shows "concat (map delivery_of (drop (length (ch_cmds ch)) (ch_cmds (fold (deliver_to p) qs ch)))) =
    map (\<lambda>q. (pub_topic p, pub_payload p, min (pub_qos p) q)) qs"
proof -
  obtain ids where ids: "ch_cmds (fold (deliver_to p) qs ch) = ch_cmds ch @
      map2 (\<lambda>q i. CmdPublish (adjusted_packet p (min (pub_qos p) q) i)) qs ids" "length ids = length qs"
    using fold_deliver_to_cmds [OF assms, of p qs] by blast
  show ?thesis using deliveries_of_adjusted [OF ids(2)] by (simp add: ids(1) del: map_map)
qed

lemma sent_to_same: "(\<And>r. ch_cmds (chs' r) = ch_cmds (chs r)) \<Longrightarrow> sent_to b chs chs' = (\<lambda>_. {#})"
  by (simp add: sent_to_def new_commands_def fun_eq_iff split: option.splits)

lemma matching_as_spec:
  assumes "\<And>f c q. tree_lookup (subscriptions b) f c = Some q \<Longrightarrow> filter_ok f"
  shows "image_mset (\<lambda>q. (topic, payload, min k q)) (matching_qos (subscriptions b) c topic) =
    image_mset (\<lambda>f. (topic, payload, min k (the (ps_subs (pubsub_of (b, chs)) c f))))
      (mset_set (ps_matching (pubsub_of (b, chs)) c topic))"
proof -
  have "{f. filter_matches f (segments_of topic) \<and> tree_lookup (subscriptions b) f c \<noteq> None} =
      ps_matching (pubsub_of (b, chs)) c topic"
    using assms by (auto simp: ps_matching_def filter_matches_eq match_segs_spec [OF filter_ok_hash_last])
  then show ?thesis by (simp add: matching_qos_def image_mset.compositionality comp_def)
qed

text \<open>A publish sends what the service delivers.\<close>

lemma publish_sent:
  assumes "channels_unique b" and "tree_wf (subscriptions b)" and "order_ok ord"
    and "\<And>f c q. tree_lookup (subscriptions b) f c = Some q \<Longrightarrow> filter_ok f"
  shows "sent_to b chs (publish ord source p b chs) =
    ps_deliver source (pub_topic p) (pub_payload p) (pub_qos p) (pubsub_of (b, chs))"
proof
  fix c
  show "sent_to b chs (publish ord source p b chs) c =
    ps_deliver source (pub_topic p) (pub_payload p) (pub_qos p) (pubsub_of (b, chs)) c"
  proof (cases "dm_get (sessions b) c")
    case None
    then show ?thesis by (simp add: sent_to_def ps_deliver_def)
  next
    case (Some e)
    show ?thesis
    proof (cases "c = source")
      case True
      then have "publish ord source p b chs (entry_channel e) = chs (entry_channel e)"
        using channels_uniqueD [OF assms(1) _ Some] by (intro publish_other) blast
      with Some True show ?thesis by (simp add: sent_to_def new_commands_def ps_deliver_def)
    next
      case False
      from publish_client_unique [OF assms(1,2,3) Some False] obtain qs where
        qs: "mset qs = matching_qos (subscriptions b) c (pub_topic p)" and
        eq: "publish ord source p b chs (entry_channel e) = fold (deliver_to p) qs (chs (entry_channel e))" by blast
      show ?thesis
      proof (cases "ch_actor (chs (entry_channel e)) = Stopped")
        case True
        with Some False eq show ?thesis
          by (simp add: sent_to_def new_commands_def ps_deliver_def fold_deliver_to_dead)
      next
        case alive: False
        have "sent_to b chs (publish ord source p b chs) c =
            image_mset (\<lambda>q. (pub_topic p, pub_payload p, min (pub_qos p) q)) (mset qs)"
          using Some by (simp add: sent_to_def new_commands_def eq fold_deliver_to_sent [OF alive])
        also have "\<dots> = image_mset (\<lambda>f. (pub_topic p, pub_payload p,
            min (pub_qos p) (the (ps_subs (pubsub_of (b, chs)) c f)))) (mset_set (ps_matching (pubsub_of (b, chs)) c (pub_topic p)))"
          unfolding qs by (rule matching_as_spec) (rule assms(4))
        finally show ?thesis using Some False alive by (simp add: ps_deliver_def)
      qed
    qed
  qed
qed

lemma publish_will_sent:
  assumes "channels_unique b" and "tree_wf (subscriptions b)" and "order_ok ord"
    and "\<And>f c q. tree_lookup (subscriptions b) f c = Some q \<Longrightarrow> filter_ok f"
  shows "sent_to b chs (publish_will ord w b chs) = ps_deliver_will w (pubsub_of (b, chs))"
  using publish_sent [OF assms]
  by (simp add: publish_will_def ps_deliver_will_def sent_to_same split: option.splits)

section \<open>Every step of the broker is a step of the service\<close>

lemma publish_will_actor [simp]: "ch_actor (publish_will ord w b chs r) = ch_actor (chs r)"
  by (simp add: publish_will_def split: option.splits)

text \<open>The state of the service depends on the channels through what publishing never changes.\<close>

lemma session_of_cong:
  "(\<And>r. ch_connection_id (chs' r) = ch_connection_id (chs r)) \<Longrightarrow> session_of chs' = session_of chs"
  by (simp add: session_of_def fun_eq_iff)

lemma session_of_unchanged [simp]:
  "session_of (publish ord source p b' chs) = session_of chs"
  "session_of (publish_will ord w b' chs) = session_of chs"
  "session_of (chs(r := close (chs r))) = session_of chs"
  by (rule session_of_cong; simp)+

lemma pubsub_of_publish [simp]:
  "pubsub_of (b, publish ord source p b' chs) = pubsub_of (b, chs)"
  "pubsub_of (b, publish_will ord w b' chs) = pubsub_of (b, chs)"
  by (rule pubsub_eqI; simp)+

lemma pubsub_of_takeover:
  assumes "dm_get (sessions b) cid = Some prev"
  shows "pubsub_of (b\<lparr>sessions := dm_remove cid (sessions b)\<rparr>, chs(entry_channel prev := close (chs (entry_channel prev)))) =
    ps_drop cid (pubsub_of (b, chs))"
  by (rule pubsub_eqI) (auto simp: ps_drop_def fun_eq_iff assms)

lemma pubsub_of_first:
  assumes "dm_get (sessions b) cid = None"
  shows "pubsub_of (b\<lparr>sessions := dm_remove cid (sessions b)\<rparr>, chs) = ps_drop cid (pubsub_of (b, chs))"
  by (rule pubsub_eqI) (auto simp: ps_drop_def fun_eq_iff assms)

lemma pubsub_of_enter:
  "pubsub_of (b\<lparr>sessions := dm_insert cid e (dm_remove cid (sessions b)),
      subscriptions := (if clean then tree_remove_client cid (subscriptions b) else subscriptions b)\<rparr>, chs) =
   ps_enter cid (entry_channel e) (ch_connection_id (chs (entry_channel e))) (entry_will e) clean
     (pubsub_of (b\<lparr>sessions := dm_remove cid (sessions b)\<rparr>, chs))"
  by (rule pubsub_eqI) (auto simp: ps_enter_def session_of_def fun_eq_iff)

lemma pubsub_of_remove:
  "pubsub_of (b\<lparr>sessions := dm_remove cid (sessions b), subscriptions := tree_remove_client cid (subscriptions b)\<rparr>, chs) =
   ps_forget cid (pubsub_of (b, chs))"
  by (rule pubsub_eqI) (auto simp: ps_forget_def fun_eq_iff)

lemma channels_unique_remove: "channels_unique b \<Longrightarrow> channels_unique (b\<lparr>sessions := dm_remove cid (sessions b)\<rparr>)"
  by (auto simp: channels_unique_def split: if_splits)

text \<open>
  Registering: the Will of the earlier connection is all that is sent, and nothing of it to the client
  that connects, which is not in the table while it is published.
\<close>

lemma register_sent:
  assumes ok: "broker_ok b" and ord: "order_ok ord"
    and fresh: "\<forall>c e. c \<noteq> cid \<longrightarrow> dm_get (sessions b) c = Some e \<longrightarrow> entry_channel e \<noteq> r"
    and reg: "register_session ord cid r will clean b chs = (present, b', chs')"
  shows "sent_to b' chs chs' = ps_deliver_will (ps_will_of (pubsub_of (b, chs)) cid) (ps_drop cid (pubsub_of (b, chs)))"
proof (cases "dm_get (sessions b) cid")
  case None
  then have "chs' = chs" using register_session_parts(3) [of ord cid r will clean b chs] reg by simp
  then show ?thesis using None by (simp add: sent_to_same ps_will_of_def ps_deliver_will_def)
next
  case (Some prev)
  let ?b = "b\<lparr>sessions := dm_remove cid (sessions b)\<rparr>"
  let ?chs = "chs(entry_channel prev := close (chs (entry_channel prev)))"
  note parts = register_session_parts [of ord cid r will clean b chs, unfolded reg fst_conv snd_conv]
  have chs': "chs' = publish_will ord (entry_will prev) ?b ?chs" using parts(3) Some by simp
  have "publish ord '''' p ?b ?chs r = ?chs r" for p
    using fresh by (intro publish_other) (auto split: if_splits)
  then have "publish_will ord (entry_will prev) ?b ?chs r = ?chs r"
    by (cases "entry_will prev") (simp_all add: publish_will_def del: fun_upd_apply)
  then have "ch_cmds (chs' r) = ch_cmds (chs r)" by (simp add: chs')
  then have "sent_to b' chs chs' = sent_to ?b ?chs chs'"
    using parts(2) by (auto simp: sent_to_def new_commands_def fun_eq_iff split: option.splits)
  also have "\<dots> = ps_deliver_will (entry_will prev) (pubsub_of (?b, ?chs))"
    unfolding chs' by (rule publish_will_sent [OF channels_unique_remove [OF broker_ok_unique [OF ok]] _ ord])
      (use broker_okD(2,4) [OF ok] in auto)
  finally show ?thesis by (simp add: pubsub_of_takeover [OF Some] ps_will_of_def Some)
qed

lemma register_refines:
  assumes "broker_ok b" and "order_ok ord"
    and "\<forall>c e. c \<noteq> cid \<longrightarrow> dm_get (sessions b) c = Some e \<longrightarrow> entry_channel e \<noteq> r"
    and "register_session ord cid r will clean b chs = (present, b', chs')"
  shows "ps_step (pubsub_of (b, chs))
    (EConnect cid r (ch_connection_id (chs r)) will clean present, sent_to b' chs chs') (pubsub_of (b', chs'))"
proof -
  note parts = register_session_parts [of ord cid r will clean b chs, unfolded assms(4) fst_conv snd_conv]
  let ?b = "b\<lparr>sessions := dm_remove cid (sessions b)\<rparr>"
  have "ch_connection_id (chs' r) = ch_connection_id (chs r)"
    using parts(3) by (auto split: option.splits)
  moreover have "pubsub_of (?b, chs') = ps_drop cid (pubsub_of (b, chs))"
    using parts(3) by (auto simp: pubsub_of_first pubsub_of_takeover split: option.splits)
  ultimately have post: "pubsub_of (b', chs') = ps_enter cid r (ch_connection_id (chs r)) will clean (ps_drop cid (pubsub_of (b, chs)))"
    unfolding parts(2) pubsub_of_enter by simp
  have fresh: "\<forall>c s. c \<noteq> cid \<longrightarrow> ps_sessions (pubsub_of (b, chs)) c = Some s \<longrightarrow> pss_channel s \<noteq> r"
    using assms(3) by auto
  have present: "present = (\<not> clean \<and> ps_sessions (pubsub_of (b, chs)) cid \<noteq> None)" using parts(1) by simp
  show ?thesis unfolding post present register_sent [OF assms] by (rule ps_connect [OF fresh])
qed

lemma unregister_refines:
  assumes "broker_ok b" and "order_ok ord"
    and "unregister_session ord cid conn graceful b chs = (b', chs')"
  shows "ps_step (pubsub_of (b, chs)) (EDisconnect cid conn graceful, sent_to b' chs chs') (pubsub_of (b', chs'))"
proof (cases "entry_of_connection cid conn b chs")
  case None
  with assms(3) have "b' = b" "chs' = chs" using unregister_session_stale [OF None] by simp_all
  with None ps_disconnect_stale show ?thesis by (simp add: sent_to_same ps_holds_pubsub_of)
next
  case (Some e)
  note e = entry_of_connectionD [OF Some]
  let ?b = "b\<lparr>sessions := dm_remove cid (sessions b), subscriptions := tree_remove_client cid (subscriptions b)\<rparr>"
  have out: "b' = ?b" "chs' = (if graceful then chs else publish_will ord (entry_will e) ?b chs)"
    using unregister_session_eq [of b cid e chs conn ord graceful] e assms(3) by (simp_all add: Let_def)
  note ok = broker_ok_remove [OF assms(1), of cid]
  have "sent_to ?b chs (publish_will ord (entry_will e) ?b chs) = ps_deliver_will (entry_will e) (pubsub_of (?b, chs))"
    by (rule publish_will_sent [OF broker_ok_unique [OF ok] broker_okD(2) [OF ok] assms(2)]) (rule broker_okD(4) [OF ok])
  then have sent: "sent_to b' chs chs' = (if graceful then (\<lambda>_. {#})
      else ps_deliver_will (ps_will_of (pubsub_of (b, chs)) cid) (ps_forget cid (pubsub_of (b, chs))))"
    using e by (simp add: out sent_to_same ps_will_of_def pubsub_of_remove)
  have post: "pubsub_of (b', chs') = ps_forget cid (pubsub_of (b, chs))"
    by (simp add: out pubsub_of_remove)
  have holds: "ps_holds (pubsub_of (b, chs)) cid conn" using Some by (simp add: ps_holds_pubsub_of)
  show ?thesis unfolding post sent by (rule ps_disconnect [OF holds])
qed

lemma subscribe_refines:
  assumes "broker_subscribe cid conn tfs b chs = (codes, b')"
  shows "ps_step (pubsub_of (b, chs)) (ESubscribe cid conn tfs codes, sent_to b' chs chs) (pubsub_of (b', chs))"
proof (cases "entry_of_connection cid conn b chs")
  case None
  with assms have "codes = map (\<lambda>_. Failure) tfs" "b' = b" by (auto simp: broker_subscribe_def)
  with None ps_subscribe_stale show ?thesis by (simp add: sent_to_same ps_holds_pubsub_of)
next
  case (Some e)
  let ?ps = "pubsub_of (b, chs)"
  have out: "codes = map (\<lambda>tf. if filter_ok (tf_filter tf) then Granted (tf_qos tf) else Failure) tfs"
    "b' = b\<lparr>sessions := dm_insert cid (fst (snd (subscribe_loop cid tfs e (subscriptions b)))) (sessions b),
        subscriptions := snd (snd (subscribe_loop cid tfs e (subscriptions b)))\<rparr>"
    using assms unfolding broker_subscribe_eq [OF Some] by (simp_all add: subscribe_loop_codes)
  have "dm_get (sessions b) cid = Some e" using entry_of_connectionD [OF Some] by simp
  then have post: "pubsub_of (b', chs) = ?ps\<lparr>ps_subs := (ps_subs ?ps)(cid := ps_subs ?ps cid ++ granted tfs)\<rparr>"
    by (intro pubsub_eqI)
      (auto simp: out(2) fun_eq_iff session_of_def subscribe_loop_entry subscribe_loop_tree)
  have sent: "sent_to b' chs chs = (\<lambda>_. {#})" by (simp add: sent_to_same)
  have holds: "ps_holds ?ps cid conn" using Some by (simp add: ps_holds_pubsub_of)
  show ?thesis unfolding post out(1) sent by (rule ps_subscribe [OF holds])
qed

lemma unsubscribe_refines:
  "ps_step (pubsub_of (b, chs)) (EUnsubscribe cid conn topics, sent_to (broker_unsubscribe cid conn topics b chs) chs chs)
     (pubsub_of (broker_unsubscribe cid conn topics b chs, chs))"
proof (cases "entry_of_connection cid conn b chs")
  case None
  then have "broker_unsubscribe cid conn topics b chs = b" by (simp add: broker_unsubscribe_def)
  with None ps_unsubscribe_stale show ?thesis by (simp add: sent_to_same ps_holds_pubsub_of)
next
  case (Some e)
  let ?ps = "pubsub_of (b, chs)" and ?b = "broker_unsubscribe cid conn topics b chs"
  have "dm_get (sessions b) cid = Some e" using entry_of_connectionD [OF Some] by simp
  then have post: "pubsub_of (?b, chs) = ?ps\<lparr>ps_subs := (ps_subs ?ps)(cid := ps_subs ?ps cid |` (- set topics))\<rparr>"
    unfolding broker_unsubscribe_eq [OF Some]
    by (intro pubsub_eqI)
      (auto simp: fun_eq_iff session_of_def unsubscribe_loop_entry unsubscribe_loop_tree restrict_map_def)
  have sent: "sent_to ?b chs chs = (\<lambda>_. {#})" by (simp add: sent_to_same)
  have holds: "ps_holds ?ps cid conn" using Some by (simp add: ps_holds_pubsub_of)
  show ?thesis unfolding post sent by (rule ps_unsubscribe [OF holds])
qed

lemma chan_step_monotone:
  "chan_step ch l ch' \<Longrightarrow> ch_connection_id ch' = ch_connection_id ch \<and> (ch_open ch' \<longrightarrow> ch_open ch) \<and>
     (ch_actor ch = Stopped \<longrightarrow> ch_actor ch' = Stopped)"
  by (induction rule: chan_step.induct) (auto simp: cmd_send_def split: if_splits)

lemma channel_refines:
  assumes "chan_step (chs r) l ch'"
  shows "ps_step (pubsub_of (b, chs)) (EInternal, \<lambda>_. {#}) (pubsub_of (b, chs(r := ch')))"
proof -
  note mono = chan_step_monotone [OF assms]
  let ?chs = "chs(r := ch')"
  have "session_of ?chs = session_of chs" by (rule session_of_cong) (simp add: mono)
  then have post: "pubsub_of (b, ?chs) =
      (pubsub_of (b, chs))\<lparr>ps_open := {x. ch_open (?chs x)}, ps_dead := {x. ch_actor (?chs x) = Stopped}\<rparr>"
    by (intro pubsub_eqI) simp_all
  show ?thesis unfolding post by (rule ps_internal) (use mono in auto)
qed

lemma broker_act_refines:
  assumes "broker_act s l s'" and "broker_ok (fst s)"
  shows "ps_step (pubsub_of s) l (pubsub_of s')"
  using assms
proof (induction rule: broker_act.induct)
  case (a_publish ord source p b chs chs')
  then have ok: "broker_ok b" by simp
  have sent: "sent_to b chs chs' = ps_deliver source (pub_topic p) (pub_payload p) (pub_qos p) (pubsub_of (b, chs))"
    unfolding a_publish.hyps(2) [symmetric]
    by (rule publish_sent [OF broker_ok_unique [OF ok] broker_okD(2) [OF ok] a_publish.hyps(1)]) (rule broker_okD(4) [OF ok])
  have same: "pubsub_of (b, chs') = pubsub_of (b, chs)" unfolding a_publish.hyps(2) [symmetric] by simp
  show ?case unfolding sent same by (rule ps_publish)
next
  case (a_unsubscribe cid conn topics b chs b')
  show ?case unfolding a_unsubscribe.hyps [symmetric] by (rule unsubscribe_refines)
qed (simp_all add: register_refines unregister_refines subscribe_refines channel_refines)

interpretation service: simulation broker_act ps_step
  "\<lambda>s ps. (broker_ok (fst s) \<and> chans_ok (snd s)) \<and> ps = pubsub_of s"
proof
  fix s l s' ps
  assume "broker_act s l s'" and "(broker_ok (fst s) \<and> chans_ok (snd s)) \<and> ps = pubsub_of s"
  then show "\<exists>ps'. ps_step ps l ps' \<and> (broker_ok (fst s') \<and> chans_ok (snd s')) \<and> ps' = pubsub_of s'"
    using broker_act_refines broker_step_ok broker_step_labelled by blast
qed

section \<open>Where deliveries come from\<close>

text \<open>
  The service remembers nothing that did not happen: a filter held was granted to that client earlier,
  and a Will kept was announced in a CONNECT of that client.
\<close>

definition accounted :: "(broker_event \<times> deliveries) list \<Rightarrow> pubsub \<Rightarrow> bool" where
  "accounted ls ps \<longleftrightarrow>
     (\<forall>c f k. ps_subs ps c f = Some k \<longrightarrow>
        (\<exists>conn tfs codes d. (ESubscribe c conn tfs codes, d) \<in> set ls \<and> granted tfs f = Some k)) \<and>
     (\<forall>c w. ps_will_of ps c = Some w \<longrightarrow>
        (\<exists>r conn clean present d. (EConnect c r conn (Some w) clean present, d) \<in> set ls))"

lemma accountedD:
  assumes "accounted ls ps"
  shows "ps_subs ps c f = Some k \<Longrightarrow> \<exists>conn tfs codes d. (ESubscribe c conn tfs codes, d) \<in> set ls \<and> granted tfs f = Some k"
    and "ps_will_of ps c = Some w \<Longrightarrow> \<exists>r conn clean present d. (EConnect c r conn (Some w) clean present, d) \<in> set ls"
  using assms unfolding accounted_def by blast+

lemma accounted_mono:
  assumes "accounted ls ps"
    and "\<And>c f k. ps_subs ps' c f = Some k \<Longrightarrow> ps_subs ps c f = Some k \<or>
      (\<exists>conn tfs codes d. l = (ESubscribe c conn tfs codes, d) \<and> granted tfs f = Some k)"
    and "\<And>c w. ps_will_of ps' c = Some w \<Longrightarrow> ps_will_of ps c = Some w \<or>
      (\<exists>r conn clean present d. l = (EConnect c r conn (Some w) clean present, d))"
  shows "accounted (ls @ [l]) ps'"
proof -
  have subs: "\<exists>conn tfs codes d. (ESubscribe c conn tfs codes, d) \<in> set (ls @ [l]) \<and> granted tfs f = Some k"
    if "ps_subs ps' c f = Some k" for c f k
    using assms(2) [OF that] accountedD(1) [OF assms(1), of c f k] by (metis UnCI list.set_intros(1) set_append)
  have wills: "\<exists>r conn clean present d. (EConnect c r conn (Some w) clean present, d) \<in> set (ls @ [l])"
    if "ps_will_of ps' c = Some w" for c w
    using assms(3) [OF that] accountedD(2) [OF assms(1), of c w] by (metis UnCI list.set_intros(1) set_append)
  show ?thesis unfolding accounted_def using subs wills by blast
qed

lemma service_state [simp]:
  "ps_subs (ps_enter cid r conn will clean ps) c f = (if clean \<and> c = cid then None else ps_subs ps c f)"
  "ps_subs (ps_drop cid ps) = ps_subs ps"
  "ps_subs (ps_forget cid ps) c f = (if c = cid then None else ps_subs ps c f)"
  "ps_will_of (ps_enter cid r conn will clean ps) c = (if c = cid then will else ps_will_of ps c)"
  "ps_will_of (ps_drop cid ps) c = (if c = cid then None else ps_will_of ps c)"
  "ps_will_of (ps_forget cid ps) c = (if c = cid then None else ps_will_of ps c)"
  "ps_will_of (ps\<lparr>ps_subs := subs\<rparr>) = ps_will_of ps"
  "ps_will_of (ps\<lparr>ps_open := opn, ps_dead := dead\<rparr>) = ps_will_of ps"
  by (simp_all add: ps_enter_def ps_drop_def ps_forget_def ps_will_of_def [abs_def])

lemma accounted_step:
  assumes "ps_step ps l ps'" and acc: "accounted ls ps"
  shows "accounted (ls @ [l]) ps'"
  using assms(1)
proof (cases rule: ps_step.cases)
  case (ps_connect cid r conn will clean)
  show ?thesis by (rule accounted_mono [OF acc]) (auto simp: ps_connect(1,2) split: if_splits)
next
  case (ps_disconnect cid conn graceful)
  show ?thesis by (rule accounted_mono [OF acc]) (auto simp: ps_disconnect(1,2) split: if_splits)
next
  case (ps_subscribe cid conn tfs)
  show ?thesis
    by (rule accounted_mono [OF acc]) (auto simp: ps_subscribe(1,2) map_add_Some_iff split: if_splits)
next
  case (ps_unsubscribe cid conn topics)
  show ?thesis
    by (rule accounted_mono [OF acc]) (auto simp: ps_unsubscribe(1,2) restrict_map_def split: if_splits)
qed (rule accounted_mono [OF acc]; simp)+

interpretation accounts: history_invariant ps_step accounted
  by unfold_locales (rule accounted_step)

text \<open>A delivery is of the message, to another client than its source, through a filter that client holds.\<close>

lemma ps_deliverD:
  assumes "(t, payload, q) \<in># ps_deliver source topic body k ps c"
  shows "t = topic \<and> payload = body \<and> q \<le> k \<and> c \<noteq> source \<and> ps_sessions ps c \<noteq> None \<and>
    (\<exists>f j. ps_subs ps c f = Some j \<and> q \<le> j \<and> matches_spec (segments_of f) (segments_of topic))"
  using assms elem_mset_set [of "ps_matching ps c topic"]
  by (cases "finite (ps_matching ps c topic)")
    (auto simp: ps_deliver_def ps_matching_def split: option.splits if_splits, meson min.cobounded2)

lemma ps_deliver_willD:
  assumes "(t, payload, q) \<in># ps_deliver_will will ps c"
  shows "\<exists>w. will = Some w \<and> t = will_topic w \<and> payload = will_payload w \<and> q \<le> will_qos w \<and> ps_sessions ps c \<noteq> None \<and>
    (\<exists>f j. ps_subs ps c f = Some j \<and> q \<le> j \<and> matches_spec (segments_of f) (segments_of t))"
  using assms ps_deliverD [of t payload q] by (fastforce simp: ps_deliver_will_def split: option.splits)

definition ended_client :: "broker_event \<Rightarrow> rstr option" where
  "ended_client ev = (case ev of EConnect c _ _ _ _ _ \<Rightarrow> Some c | EDisconnect c _ False \<Rightarrow> Some c | _ \<Rightarrow> None)"

lemma ps_step_delivers:
  assumes "ps_step ps (ev, d) ps'" and "(t, payload, q) \<in># d c"
  shows "(\<exists>f k. ps_subs ps c f = Some k \<and> q \<le> k \<and> matches_spec (segments_of f) (segments_of t)) \<and>
    ((\<exists>source p. ev = EPublish source p \<and> source \<noteq> c \<and> t = pub_topic p \<and> payload = pub_payload p \<and> q \<le> pub_qos p) \<or>
     (\<exists>x w. ended_client ev = Some x \<and> x \<noteq> c \<and> ps_will_of ps x = Some w \<and> t = will_topic w \<and>
        payload = will_payload w \<and> q \<le> will_qos w))"
proof -
  have will: ?thesis if "(t, payload, q) \<in># ps_deliver_will (ps_will_of ps x) ps1 c" and "ended_client ev = Some x"
    and "ps_sessions ps1 x = None" and "\<And>f k. ps_subs ps1 c f = Some k \<Longrightarrow> ps_subs ps c f = Some k" for x ps1
    using ps_deliver_willD [OF that(1)] that(2-4) by metis
  from assms(1) show ?thesis
  proof (cases rule: ps_step.cases)
    case (ps_connect cid r conn will clean)
    show ?thesis
      by (rule will [of cid "ps_drop cid ps"]) (use assms(2) ps_connect in \<open>simp_all add: ps_drop_def ended_client_def\<close>)
  next
    case (ps_disconnect cid conn graceful)
    show ?thesis
      by (rule will [of cid "ps_forget cid ps"])
        (use assms(2) ps_disconnect in \<open>auto simp: ps_forget_def ended_client_def split: if_splits\<close>)
  next
    case (ps_publish source p)
    from assms(2) have "(t, payload, q) \<in># ps_deliver source (pub_topic p) (pub_payload p) (pub_qos p) ps c"
      unfolding ps_publish(2) .
    from ps_deliverD [OF this] ps_publish(1) show ?thesis by blast
  qed (use assms(2) in simp_all)
qed

text \<open>The requests that lead to the small broker, and what a publish sends its client.\<close>

definition sample_events :: "(broker_event \<times> deliveries) list" where
  "sample_events =
     [(EConnect ''c'' 0 0 (Some sample_will) True False, \<lambda>_. {#}),
      (ESubscribe ''c'' 0 [\<lparr>tf_filter = ''a/#'', tf_qos = AtLeastOnce\<rparr>] [Granted AtLeastOnce], \<lambda>_. {#})]"

lemma sample_run: "labelled_run broker_act (broker_accept_all, fresh_chans) sample_events (sample_broker, fresh_chans)"
proof -
  let ?reg = "register_session plain_order ''c'' 0 (Some sample_will) True broker_accept_all fresh_chans"
  let ?tfs = "[\<lparr>tf_filter = ''a/#'', tf_qos = AtLeastOnce\<rparr>]"
  have none: "dm_get (sessions broker_accept_all) c = None" for c
    by (simp add: broker_accept_all_def broker_build_def)
  define b1 where "b1 = fst (snd ?reg)"
  have b1: "?reg = (False, b1, fresh_chans)"
    by (rule prod_eqI, simp add: register_session_parts, rule prod_eqI)
      (simp_all add: register_session_parts none b1_def)
  have "broker_act (broker_accept_all, fresh_chans) (EConnect ''c'' 0 (ch_connection_id (fresh_chans 0)) (Some sample_will) True False,
      sent_to b1 fresh_chans fresh_chans) (b1, fresh_chans)"
    by (rule a_register [OF plain_order_ok _ b1]) (simp add: none)
  then have reg: "broker_act (broker_accept_all, fresh_chans) (EConnect ''c'' 0 0 (Some sample_will) True False, \<lambda>_. {#}) (b1, fresh_chans)"
    by (simp add: sent_to_same)
  have "filter_ok ''a/#''"
    by (simp add: filter_ok_def MAX_TOPIC_LEN_def segments_of_def level_ok_def has_wildcard_def)
  moreover have "entry_of_connection ''c'' 0 b1 fresh_chans \<noteq> None"
    using register_session_parts(2) [of plain_order "''c''" 0 "Some sample_will" True broker_accept_all fresh_chans] b1
    by (simp add: entry_of_connection_def)
  ultimately have "fst (broker_subscribe ''c'' 0 ?tfs b1 fresh_chans) = [Granted AtLeastOnce]"
    by (auto simp: broker_subscribe_def subscribe_loop_codes case_prod_beta)
  moreover have "snd (broker_subscribe ''c'' 0 ?tfs b1 fresh_chans) = sample_broker"
    unfolding sample_broker_def b1_def ..
  ultimately have "broker_subscribe ''c'' 0 ?tfs b1 fresh_chans = ([Granted AtLeastOnce], sample_broker)"
    by (metis prod.collapse)
  from a_subscribe [OF this]
  have sub: "broker_act (b1, fresh_chans) (ESubscribe ''c'' 0 ?tfs [Granted AtLeastOnce], \<lambda>_. {#}) (sample_broker, fresh_chans)"
    by (simp add: sent_to_same)
  note lrun = lrun_snoc [where step = broker_act]
  from lrun [OF lrun [OF lrun_nil reg] sub] show ?thesis by (simp add: sample_events_def)
qed

definition routed_publish :: publish_packet where
  "routed_publish = \<lparr>pub_topic = ''a/b'', pub_payload = [7], pub_dup = False, pub_qos = ExactlyOnce,
     pub_retain = False, pub_packet_id = Some 1\<rparr>"

lemma sample_delivery:
  "(''a/b'', [7], AtLeastOnce) \<in># sent_to sample_broker fresh_chans
     (publish plain_order ''p'' routed_publish sample_broker fresh_chans) ''c''"
proof -
  have ok: "broker_ok sample_broker" using broker_reachable_ok [OF sample_reachable] by simp
  have "ps_matching (pubsub_of (sample_broker, fresh_chans)) ''c'' ''a/b'' = {''a/#''}"
    by (auto simp: ps_matching_def sample_lookup segments_of_def matches_spec_def admits_def)
  moreover have "sent_to sample_broker fresh_chans (publish plain_order ''p'' routed_publish sample_broker fresh_chans) =
      ps_deliver ''p'' ''a/b'' [7] ExactlyOnce (pubsub_of (sample_broker, fresh_chans))"
    using publish_sent [OF broker_ok_unique [OF ok] broker_okD(2) [OF ok] plain_order_ok, of fresh_chans "''p''" routed_publish]
      broker_okD(4) [OF ok] by (auto simp: routed_publish_def)
  moreover have "min ExactlyOnce AtLeastOnce = AtLeastOnce"
    by (simp add: min_def less_eq_qos_def word_le_nat_alt)
  ultimately show ?thesis
    by (simp add: ps_deliver_def sample_broker_simps(1) dm_get_def sample_lookup)
qed

section \<open>Properties\<close>





end
