(* ===== verification/Mqtt_Protocol.thy ===== *)
theory Mqtt_Protocol
  imports Mqtt_Broker
begin

text \<open>
  What both roles share: the request context (\<^verbatim>\<open>src/src/context.rs\<close>) and the protocol object with
  its channel slot, protocol detection and the acknowledgement of inbound publishes
  (\<^verbatim>\<open>src/src/protocol/mod.rs\<close>). A channel is named by its reference into the store of channels, as in
  the broker.
\<close>

section \<open>context.rs: the request context\<close>

text \<open>
  The endpoint node is a value of \<^verbatim>\<open>hotaru_core\<close>'s router and stays a type parameter. The fields
  \<^verbatim>\<open>params\<close> and \<^verbatim>\<open>locals\<close> are storage for endpoint code that the crate never reads or writes, and are
  left out.
\<close>

record 'n mqtt_context =
  ctx_request :: mqtt_request
  ctx_response :: mqtt_response
  ctx_incoming :: "incoming_publish option"
  ctx_channel :: "nat option"
  ctx_fanout :: bool
  ctx_endpoint :: "'n option"

definition context_default :: "'n mqtt_context" where
  "context_default =
     \<lparr>ctx_request = ReqPublish publish_request_default, ctx_response = Published Sent,
      ctx_incoming = None, ctx_channel = None, ctx_fanout = True, ctx_endpoint = None\<rparr>"

definition install_channel :: "nat \<Rightarrow> 'n mqtt_context \<Rightarrow> 'n mqtt_context" where
  "install_channel ch ctx = ctx\<lparr>ctx_channel := Some ch\<rparr>"

definition set_incoming :: "incoming_publish \<Rightarrow> 'n mqtt_context \<Rightarrow> 'n mqtt_context" where
  "set_incoming p ctx = ctx\<lparr>ctx_incoming := Some p\<rparr>"

definition set_endpoint :: "'n \<Rightarrow> 'n mqtt_context \<Rightarrow> 'n mqtt_context" where
  "set_endpoint node ctx = ctx\<lparr>ctx_endpoint := Some node\<rparr>"

definition should_fanout :: "'n mqtt_context \<Rightarrow> bool" where
  "should_fanout ctx = ctx_fanout ctx"

definition suppress_fanout :: "'n mqtt_context \<Rightarrow> 'n mqtt_context" where
  "suppress_fanout ctx = ctx\<lparr>ctx_fanout := False\<rparr>"

definition ctx_topic :: "'n mqtt_context \<Rightarrow> rstr option" where
  "ctx_topic ctx = map_option inc_topic (ctx_incoming ctx)"

definition ctx_payload :: "'n mqtt_context \<Rightarrow> u8 list option" where
  "ctx_payload ctx = map_option inc_payload (ctx_incoming ctx)"

text \<open>
  \<open>seg_index\<close> is the router's \<^verbatim>\<open>match_seg_name_with_index\<close>: the level at which a node's path captures
  a name.
\<close>

definition ctx_param :: "('n \<Rightarrow> rstr \<Rightarrow> usize option) \<Rightarrow> rstr \<Rightarrow> 'n mqtt_context \<Rightarrow> rstr option" where
  "ctx_param seg_index name ctx =
     (case ctx_topic ctx of
        None \<Rightarrow> None
      | Some topic \<Rightarrow>
          (case ctx_endpoint ctx of
             None \<Rightarrow> None
           | Some endpoint \<Rightarrow>
               (case seg_index endpoint name of
                  None \<Rightarrow> None
                | Some idx \<Rightarrow>
                    (let segs = segments_of topic
                     in if idx < length segs then Some (segs ! idx) else None))))"

definition ctx_client_id :: "chans \<Rightarrow> 'n mqtt_context \<Rightarrow> rstr option" where
  "ctx_client_id chs ctx =
     (case ctx_channel ctx of None \<Rightarrow> None | Some r \<Rightarrow> client_id (chs r))"

definition handle_error :: "'n mqtt_context \<Rightarrow> 'n mqtt_context" where
  "handle_error ctx = ctx\<lparr>ctx_fanout := False\<rparr>"

definition ctx_role :: "chans \<Rightarrow> 'n mqtt_context \<Rightarrow> protocol_role" where
  "ctx_role chs ctx = (case ctx_channel ctx of None \<Rightarrow> ClientRole | Some r \<Rightarrow> ch_role (chs r))"

definition inject_request :: "mqtt_request \<Rightarrow> 'n mqtt_context \<Rightarrow> 'n mqtt_context" where
  "inject_request req ctx = ctx\<lparr>ctx_request := req\<rparr>"

definition into_response :: "'n mqtt_context \<Rightarrow> mqtt_response" where
  "into_response ctx = ctx_response ctx"

section \<open>protocol/mod.rs: the protocol object\<close>

text \<open>Durations in milliseconds.\<close>

type_synonym duration = u64

definition CONNECT_RECEIVE_TIMEOUT :: duration where
  "CONNECT_RECEIVE_TIMEOUT = 10 * 1000"

definition DEFAULT_ACK_TIMEOUT :: duration where
  "DEFAULT_ACK_TIMEOUT = 30 * 1000"

text \<open>The keys under which the handlers look up the broker and the client configuration.\<close>

definition BROKER_STATICS_KEY :: string where
  "BROKER_STATICS_KEY = ''hotaru_mqtt::broker''"

definition CLIENT_CONFIG_STATICS_KEY :: string where
  "CLIENT_CONFIG_STATICS_KEY = ''hotaru_mqtt::client_config''"

text \<open>
  The clones of a protocol object share one slot. \<open>None\<close>: no slot, as in server mode; \<open>Some None\<close>: a
  slot that is still empty.
\<close>

record mqtt_protocol =
  proto_role :: protocol_role
  session_channel :: "nat option option"

definition protocol_server :: mqtt_protocol where
  "protocol_server = \<lparr>proto_role = ServerRole, session_channel = None\<rparr>"

definition protocol_client :: mqtt_protocol where
  "protocol_client = \<lparr>proto_role = ClientRole, session_channel = Some None\<rparr>"

definition protocol_name :: "mqtt_protocol \<Rightarrow> string" where
  "protocol_name proto = ''mqtt''"

definition default_connection_timeout :: "mqtt_protocol \<Rightarrow> duration option" where
  "default_connection_timeout proto = None"

definition detect :: "u8 list \<Rightarrow> bool" where
  "detect initial_bytes =
     (case initial_bytes of [] \<Rightarrow> False | b # _ \<Rightarrow> drop_bit 4 b = 1)"

text \<open>
  \<open>open_channel\<close> creates the channel under the fresh reference \<open>r\<close> and, on a client, offers it to the
  slot, which keeps the first one it is given.
\<close>

definition open_channel ::
  "nat \<Rightarrow> reader \<Rightarrow> wire_writer \<Rightarrow> socket_addr option \<times> socket_addr option \<Rightarrow> mqtt_protocol \<Rightarrow> chans \<Rightarrow> u64 \<Rightarrow>
   mqtt_protocol \<times> chans \<times> u64" where
  "open_channel r rd wr meta proto chs counter =
     (let (ch, counter) = channel_new rd wr meta (proto_role proto) counter;
          chs = chs(r := ch);
          proto = (case session_channel proto of
                     None \<Rightarrow> proto
                   | Some None \<Rightarrow> proto\<lparr>session_channel := Some (Some r)\<rparr>
                   | Some (Some _) \<Rightarrow> proto)
      in (proto, chs, counter))"

definition acquire_channel :: "mqtt_protocol \<Rightarrow> nat result" where
  "acquire_channel proto =
     (case session_channel proto of
        None \<Rightarrow> Err (Configuration ''acquire_channel called on Server-mode MqttProtocol'')
      | Some None \<Rightarrow> Err (NotConnected ''call client.run_wire(wire) to establish session first'')
      | Some (Some r) \<Rightarrow> Ok r)"

text \<open>
  The acknowledgement that precedes the endpoint chain; a QoS 2 publish is also stashed until its
  PUBREL.
\<close>

definition ack_inbound_publish_pre_chain :: "publish_packet \<Rightarrow> channel \<Rightarrow> unit result \<times> channel" where
  "ack_inbound_publish_pre_chain p ch =
     (case pub_qos p of
        AtMostOnce \<Rightarrow> (Ok (), ch)
      | AtLeastOnce \<Rightarrow>
          (case pub_packet_id p of
             None \<Rightarrow> (Ok (), ch)
           | Some i \<Rightarrow> send_packet (Puback i) ch)
      | ExactlyOnce \<Rightarrow>
          (case pub_packet_id p of
             None \<Rightarrow> (Ok (), ch)
           | Some i \<Rightarrow>
               (let ch = with_session (stash_qos2_publish i (incoming_from_packet p)) ch
                in send_packet (Pubrec i) ch)))"

text \<open>The end of \<open>handle\<close>: whatever the handler of the role returned, the channel is closed behind it.\<close>

definition handle_end :: "nat \<Rightarrow> 'a result \<Rightarrow> chans \<Rightarrow> 'a result \<times> chans" where
  "handle_end r res chs = (res, chs(r := close (chs r)))"

section \<open>Lemmas\<close>

lemma channel_ok_with_session:
  "channel_ok ch \<Longrightarrow> (\<And>s. session_ok s \<Longrightarrow> session_ok (f s)) \<Longrightarrow> channel_ok (with_session f ch)"
  by (simp add: channel_ok_def)

lemma channel_ok_send_packet [inv_intros]: "channel_ok ch \<Longrightarrow> channel_ok (snd (send_packet p ch))"
  by (simp add: send_packet_def channel_ok_cmd_send)

lemma channel_ok_send_publish [inv_intros]: "channel_ok ch \<Longrightarrow> channel_ok (snd (send_publish p ch))"
  by (simp add: send_publish_def channel_ok_cmd_send)

lemma channel_ok_ack_pre_chain [inv_intros]:
  "channel_ok ch \<Longrightarrow> channel_ok (snd (ack_inbound_publish_pre_chain p ch))"
  by (auto simp: ack_inbound_publish_pre_chain_def Let_def channel_ok_send_packet session_ok_tables
      intro!: channel_ok_send_packet channel_ok_with_session split: qos.splits option.splits)

end
