(* ===== verification/Mqtt_Server.thy ===== *)
theory Mqtt_Server
  imports Mqtt_Protocol Mqtt_Broker_Properties Mqtt_Codec
begin

text \<open>
  The server side of a connection, \<^verbatim>\<open>src/src/protocol/server.rs\<close>: admission of the CONNECT, the
  dispatch of inbound packets, the worker that runs endpoint chains and fan-out, the reader loop and
  the teardown. The straight-line parts are functions on the broker and the store of channels; the
  loop, the worker and the other connections run concurrently and form the step relation
  \<open>server_step\<close>.
\<close>

section \<open>Keep-alive\<close>

definition server_read_deadline :: "u16 \<Rightarrow> duration option" where
  "server_read_deadline ka = (if ka = 0 then None else Some (ucast ka * 1500))"

datatype read_outcome = ReadPacket packet reader | ReadFailed mqtt_error | DeadlineElapsed

text \<open>
  A read that cannot complete on the bytes that have arrived ends at the deadline when there is one
  and otherwise goes on waiting.
\<close>

definition read_packet_before ::
  "reader \<Rightarrow> usize \<Rightarrow> duration option \<Rightarrow> (mqtt_error, read_outcome) outcome" where
  "read_packet_before rd max_size deadline =
     (case read_packet rd max_size of
        Ok (p, rd') \<Rightarrow> Ok (ReadPacket p rd')
      | Err e \<Rightarrow> Ok (ReadFailed e)
      | Panic \<Rightarrow> Panic
      | Pending \<Rightarrow> (case deadline of Some _ \<Rightarrow> Ok DeadlineElapsed | None \<Rightarrow> Pending))"

section \<open>Admission\<close>

definition keep_alive_refused :: "mqtt_safety \<Rightarrow> u16 \<Rightarrow> bool" where
  "keep_alive_refused sf ka =
     (if ka = 0 then \<not> allows_disabled_keep_alive sf else ka > max_keep_alive sf)"

definition effective_client_id :: "connect_packet \<Rightarrow> channel \<Rightarrow> rstr" where
  "effective_client_id connect ch =
     (if con_client_id connect = [] then ''hotaru-auto-'' @ show_nat (unat (ch_connection_id ch))
      else con_client_id connect)"

definition will_of_packet :: "will_packet \<Rightarrow> will_message" where
  "will_of_packet w =
     \<lparr>will_topic = wp_topic w, will_payload = wp_payload w, will_qos = wp_qos w, will_retain = wp_retain w\<rparr>"

record admitted =
  adm_client_id :: rstr
  adm_connection_id :: u64
  adm_keep_alive :: u16

definition on_channel :: "nat \<Rightarrow> (channel \<Rightarrow> 'a \<times> channel) \<Rightarrow> chans \<Rightarrow> 'a \<times> chans" where
  "on_channel r f chs = (let (x, ch) = f (chs r) in (x, chs(r := ch)))"

definition connack :: "bool \<Rightarrow> connack_return_code \<Rightarrow> packet" where
  "connack present code = Connack \<lparr>ack_session_present = present, ack_return_code = code\<rparr>"

text \<open>From the received CONNECT to the accepting CONNACK, or to the refusal.\<close>

definition server_admit ::
  "iter_order \<Rightarrow> nat \<Rightarrow> connect_packet \<Rightarrow> broker \<Rightarrow> chans \<Rightarrow> admitted result \<times> broker \<times> chans" where
  "server_admit ord r connect b chs =
     (if keep_alive_refused (safety b) (con_keep_alive connect) then
        (let chs = snd (on_channel r (send_packet (connack False ServerUnavailable)) chs)
         in (Err (Protocol (ConnectionRefused ServerUnavailable)), b, chs))
      else
        (let auth = authenticate b connect (ch_remote_addr (chs r)) in
         if \<not> auth_accepted auth then
           (let chs = snd (on_channel r (send_packet (connack False (auth_return_code auth))) chs)
            in (Err (Protocol (ConnectionRefused (auth_return_code auth))), b, chs))
         else
           (let cid = effective_client_id connect (chs r);
                will = map_option will_of_packet (con_will connect);
                connection_id = ch_connection_id (chs r);
                (session_present, b, chs) = register_session ord cid r will (con_clean_session connect) b chs;
                chs = chs(r := with_session
                  (\<lambda>s. snd (bind_set \<lparr>bind_client_id = cid, bind_keep_alive = con_keep_alive connect\<rparr> s)) (chs r));
                (sent, chs) = on_channel r (send_packet (connack session_present Accepted)) chs
            in case sent of
                 Ok _ \<Rightarrow>
                   (Ok \<lparr>adm_client_id = cid, adm_connection_id = connection_id,
                        adm_keep_alive = con_keep_alive connect\<rparr>, b, chs)
               | Err e \<Rightarrow>
                   (let (b, chs) = unregister_session ord cid connection_id False b chs in (Err e, b, chs))
               | Panic \<Rightarrow> (Panic, b, chs)
               | Pending \<Rightarrow> (Pending, b, chs))))"

text \<open>
  The opening of \<open>handle_server\<close>. The broker is looked up in the runtime's statics (\<open>None\<close> when it was
  not registered there); a CONNECT that has not arrived when the ten seconds are over is a timeout.
\<close>

definition server_open ::
  "iter_order \<Rightarrow> nat \<Rightarrow> broker option \<Rightarrow> chans \<Rightarrow> (admitted \<times> reader) result \<times> broker option \<times> chans" where
  "server_open ord r bopt chs =
     (case bopt of
        None \<Rightarrow> (Err (Configuration ''Broker not registered''), bopt, chs)
      | Some b \<Rightarrow>
          (let (taken, chs) = on_channel r take_reader chs in
           case taken of
             None \<Rightarrow> (Err (Configuration ''reader already taken''), bopt, chs)
           | Some rd \<Rightarrow>
               (case read_packet rd (max_packet_size (safety b)) of
                  Ok (Connect connect, rd') \<Rightarrow>
                    (let (res, b, chs) = server_admit ord r connect b chs
                     in (obind res (\<lambda>a. Ok (a, rd')), Some b, chs))
                | Ok (_, rd') \<Rightarrow> (Err (Protocol ExpectedConnect), bopt, chs)
                | Err e \<Rightarrow> (Err e, bopt, chs)
                | Panic \<Rightarrow> (Panic, bopt, chs)
                | Pending \<Rightarrow> (Err (Timeout TimeoutConnectReceive), bopt, chs))))"

section \<open>Dispatch of inbound packets\<close>

text \<open>
  The queue to the chain worker is a list; \<open>alive\<close> tells whether the worker still holds its receiving
  end.
\<close>

definition queue_work :: "bool \<Rightarrow> publish_packet \<Rightarrow> publish_packet list \<Rightarrow> unit result \<times> publish_packet list" where
  "queue_work alive p work = (if alive then (Ok (), work @ [p]) else (Err ChannelClosed, work))"

definition released_publish :: "packet_id \<Rightarrow> incoming_publish \<Rightarrow> publish_packet" where
  "released_publish i stored =
     \<lparr>pub_topic = inc_topic stored, pub_payload = inc_payload stored, pub_dup = False,
      pub_qos = inc_qos stored, pub_retain = inc_retain stored, pub_packet_id = Some i\<rparr>"

fun dispatch_server_inbound ::
  "nat \<Rightarrow> rstr \<Rightarrow> u64 \<Rightarrow> bool \<Rightarrow> packet \<Rightarrow> broker \<times> chans \<times> publish_packet list \<Rightarrow>
   unit result \<times> broker \<times> chans \<times> publish_packet list" where
  "dispatch_server_inbound r cid conn alive (Publish p) (b, chs, work) =
     (let (acked, chs) = on_channel r (ack_inbound_publish_pre_chain p) chs in
      case acked of
        Ok _ \<Rightarrow>
          if pub_qos p = ExactlyOnce then (Ok (), b, chs, work)
          else (let (sent, work) = queue_work alive p work in (sent, b, chs, work))
      | e \<Rightarrow> (e, b, chs, work))"
| "dispatch_server_inbound r cid conn alive (Subscribe s) (b, chs, work) =
     (let filters = map (\<lambda>ts. \<lparr>tf_filter = ts_topic ts, tf_qos = ts_qos ts\<rparr>) (sub_subscriptions s);
          (codes, b) = broker_subscribe cid conn filters b chs;
          (sent, chs) = on_channel r (send_packet
            (Suback \<lparr>suback_packet_id = sub_packet_id s, suback_return_codes = codes\<rparr>)) chs
      in (sent, b, chs, work))"
| "dispatch_server_inbound r cid conn alive (Unsubscribe u) (b, chs, work) =
     (let b = broker_unsubscribe cid conn (unsub_topics u) b chs;
          (sent, chs) = on_channel r (send_packet (Unsuback (unsub_packet_id u))) chs
      in (sent, b, chs, work))"
| "dispatch_server_inbound r cid conn alive Pingreq (b, chs, work) =
     (let (sent, chs) = on_channel r (send_packet Pingresp) chs in (sent, b, chs, work))"
| "dispatch_server_inbound r cid conn alive (Puback i) (b, chs, work) =
     (let chs = chs(r := with_session (wake_ack_waiter i KPuback) (chs r));
          chs = chs(r := with_session (clear_outbound_inflight i) (chs r))
      in (Ok (), b, chs, work))"
| "dispatch_server_inbound r cid conn alive (Pubrec i) (b, chs, work) =
     (let chs = chs(r := with_session (wake_ack_waiter i KPubrec) (chs r));
          (sent, chs) = on_channel r (send_packet (Pubrel i)) chs
      in (sent, b, chs, work))"
| "dispatch_server_inbound r cid conn alive (Pubcomp i) (b, chs, work) =
     (let chs = chs(r := with_session (wake_ack_waiter i KPubcomp) (chs r));
          chs = chs(r := with_session (clear_outbound_inflight i) (chs r))
      in (Ok (), b, chs, work))"
| "dispatch_server_inbound r cid conn alive (Pubrel i) (b, chs, work) =
     (let (stored, s) = take_qos2_publish i (ch_session (chs r));
          chs = chs(r := with_session (\<lambda>_. s) (chs r));
          (queued, work) =
            (case stored of
               None \<Rightarrow> (Ok (), work)
             | Some inc \<Rightarrow> queue_work alive (released_publish i inc) work)
      in case queued of
           Ok _ \<Rightarrow> (let (sent, chs) = on_channel r (send_packet (Pubcomp i)) chs in (sent, b, chs, work))
         | e \<Rightarrow> (e, b, chs, work))"
| "dispatch_server_inbound r cid conn alive (Connect c) (b, chs, work) =
     (Err (Protocol SessionAlreadyBound), b, chs, work)"
| "dispatch_server_inbound r cid conn alive p (b, chs, work) = (Ok (), b, chs, work)"

section \<open>The chain worker\<close>

text \<open>
  The router and the endpoints are not part of the crate. \<open>ep_nodes\<close> gives the nodes the cursor finds
  for a topic, in order; running a node on a context is a future: \<open>ep_start\<close> creates it, and \<open>ep_poll\<close>
  runs it to its end or, with \<open>Pending\<close>, to its next wait, with whatever it does to the channels.
\<close>

record ('n, 'k) endpoint_code =
  ep_nodes :: "rstr \<Rightarrow> 'n list"
  ep_start :: "'n \<Rightarrow> 'n mqtt_context \<Rightarrow> 'k"
  ep_poll :: "'k \<Rightarrow> chans \<Rightarrow> 'n mqtt_context result \<times> 'k \<times> chans"

definition chain_context :: "nat \<Rightarrow> 'n \<Rightarrow> publish_packet \<Rightarrow> 'n mqtt_context" where
  "chain_context r node current =
     set_endpoint node (install_channel r (set_incoming (incoming_from_packet current) context_default))"

definition propagate :: "'n mqtt_context \<Rightarrow> publish_packet \<Rightarrow> publish_packet" where
  "propagate out current =
     (case ctx_incoming out of
        None \<Rightarrow> current
      | Some inc \<Rightarrow> current\<lparr>pub_topic := inc_topic inc, pub_payload := inc_payload inc,
          pub_qos := inc_qos inc, pub_retain := inc_retain inc\<rparr>)"

text \<open>
  Where the worker's task is: waiting on its queue; in the \<^verbatim>\<open>await\<close> of an endpoint, with the nodes
  still to come, the fan-out flag and the packet as it is now; or gone after a panic.
\<close>

datatype ('n, 'k) worker = WIdle | WRun 'k "'n list" bool publish_packet | WGone

text \<open>
  The head of \<^verbatim>\<open>while let Some(node) = cursor.find_next(..)\<close>: the next endpoint is started, or the chain
  is over and has its result.
\<close>

fun chain_next ::
  "('n, 'k) endpoint_code \<Rightarrow> nat \<Rightarrow> 'n list \<Rightarrow> bool \<Rightarrow> publish_packet \<Rightarrow>
   ('n, 'k) worker \<times> publish_packet option" where
  "chain_next code r [] fanout current = (WIdle, if fanout then Some current else None)"
| "chain_next code r (node # nodes) fanout current =
     (WRun (ep_start code node (chain_context r node current)) nodes fanout current, None)"

definition run_server_chain_then_decide_fanout ::
  "('n, 'k) endpoint_code \<Rightarrow> nat \<Rightarrow> publish_packet \<Rightarrow> ('n, 'k) worker \<times> publish_packet option" where
  "run_server_chain_then_decide_fanout code r p = chain_next code r (ep_nodes code (pub_topic p)) True p"

text \<open>One poll of the endpoint in progress, and the rest of the loop body when it has returned.\<close>

definition chain_poll ::
  "('n, 'k) endpoint_code \<Rightarrow> nat \<Rightarrow> 'k \<Rightarrow> 'n list \<Rightarrow> bool \<Rightarrow> publish_packet \<Rightarrow> chans \<Rightarrow>
   (('n, 'k) worker \<times> publish_packet option) \<times> chans" where
  "chain_poll code r k nodes fanout current chs =
     (case ep_poll code k chs of
        (Ok out, _, chs') \<Rightarrow>
          (chain_next code r nodes (if \<not> should_fanout out then False else fanout) (propagate out current), chs')
      | (Err _, _, chs') \<Rightarrow> (chain_next code r nodes False current, chs')
      | (Panic, _, chs') \<Rightarrow> ((WGone, None), chs')
      | (Pending, k', chs') \<Rightarrow> ((WRun k' nodes fanout current, None), chs'))"

definition fan_out :: "iter_order \<Rightarrow> rstr \<Rightarrow> publish_packet option \<Rightarrow> broker \<Rightarrow> chans \<Rightarrow> chans" where
  "fan_out ord source out b chs =
     (case out of None \<Rightarrow> chs | Some packet \<Rightarrow> publish ord source packet b chs)"

text \<open>
  A move of \<open>run_publish_chain_worker\<close> from one wait to the next: a publish is taken off the queue, or
  the endpoint in progress is polled; when the chain is over, its packet is fanned out. \<open>None\<close>: the
  worker has nothing to do.
\<close>

definition worker_round ::
  "('n, 'k) endpoint_code \<Rightarrow> iter_order \<Rightarrow> nat \<Rightarrow> rstr \<Rightarrow> ('n, 'k) worker \<Rightarrow> publish_packet list \<Rightarrow> broker \<Rightarrow>
   chans \<Rightarrow> (('n, 'k) worker \<times> publish_packet list \<times> chans) option" where
  "worker_round code ord r source w work b chs =
     (case w of
        WIdle \<Rightarrow>
          (case work of
             [] \<Rightarrow> None
           | p # ps \<Rightarrow>
               (let (w', out) = run_server_chain_then_decide_fanout code r p
                in Some (w', ps, fan_out ord source out b chs)))
      | WRun k nodes fanout current \<Rightarrow>
          (let ((w', out), chs') = chain_poll code r k nodes fanout current chs
           in Some (w', work, fan_out ord source out b chs'))
      | WGone \<Rightarrow> None)"

section \<open>The reader loop, the worker and the teardown\<close>

text \<open>
  Where the task of \<open>handle_server\<close> is after admission: at the head of the loop, past the check of the
  open flag, in the \<^verbatim>\<open>select!\<close> (with its \<^verbatim>\<open>notified()\<close> future created), past the loop, waiting for the
  worker, or returned (\<open>Ok ()\<close> is \<^verbatim>\<open>Ok(ProtocolFlow::Close)\<close>).
\<close>

datatype phase = AtHead | Checked | AtSelect | Winding | Draining | Finished "unit result"

record ('n, 'k) server_conn =
  cn_channel :: nat
  cn_client_id :: rstr
  cn_connection_id :: u64
  cn_max_size :: usize
  cn_deadline :: "duration option"
  cn_reader :: reader
  cn_work :: "publish_packet list"
  cn_worker :: "('n, 'k) worker"
  cn_graceful :: bool
  cn_error :: "mqtt_error option"
  cn_phase :: phase

definition server_conn_start :: "nat \<Rightarrow> broker \<Rightarrow> admitted \<Rightarrow> reader \<Rightarrow> ('n, 'k) server_conn" where
  "server_conn_start r b a rd =
     \<lparr>cn_channel = r, cn_client_id = adm_client_id a, cn_connection_id = adm_connection_id a,
      cn_max_size = max_packet_size (safety b), cn_deadline = server_read_deadline (adm_keep_alive a),
      cn_reader = rd, cn_work = [], cn_worker = WIdle, cn_graceful = False, cn_error = None,
      cn_phase = AtHead\<rparr>"

definition set_loop :: "bool option \<Rightarrow> nat \<Rightarrow> chans \<Rightarrow> chans" where
  "set_loop l r chs = chs(r := (chs r)\<lparr>ch_loop := l\<rparr>)"

text \<open>
  The receive arm of the \<^verbatim>\<open>select!\<close>, on a completed read: where the loop goes next. The \<^verbatim>\<open>notified()\<close>
  future of the round is gone by then.
\<close>

definition loop_round ::
  "read_outcome \<Rightarrow> ('n, 'k) server_conn \<Rightarrow> broker \<Rightarrow> chans \<Rightarrow> ('n, 'k) server_conn \<times> broker \<times> chans" where
  "loop_round ro c b chs =
     (case ro of
        DeadlineElapsed \<Rightarrow> (c\<lparr>cn_phase := Winding\<rparr>, b, chs)
      | ReadFailed e \<Rightarrow>
          (case e of
             Io _ \<Rightarrow> (c\<lparr>cn_phase := Winding\<rparr>, b, chs)
           | _ \<Rightarrow> (c\<lparr>cn_error := Some e, cn_phase := Winding\<rparr>, b, chs))
      | ReadPacket p rd \<Rightarrow>
          (if p = Disconnect then
             (c\<lparr>cn_reader := rd, cn_graceful := True, cn_phase := Winding\<rparr>, b, chs)
           else
             (let (res, b, chs, work) =
                 dispatch_server_inbound (cn_channel c) (cn_client_id c) (cn_connection_id c)
                   (cn_worker c \<noteq> WGone) p (b, chs, cn_work c);
                  c = c\<lparr>cn_reader := rd, cn_work := work\<rparr>
              in case res of
                   Err e \<Rightarrow> (c\<lparr>cn_error := Some e, cn_phase := Winding\<rparr>, b, chs)
                 | _ \<Rightarrow> (c\<lparr>cn_phase := AtHead\<rparr>, b, chs))))"

definition finish_result :: "('n, 'k) server_conn \<Rightarrow> unit result" where
  "finish_result c = (case cn_error c of Some e \<Rightarrow> Err e | None \<Rightarrow> Ok ())"

text \<open>When \<^verbatim>\<open>chain_worker.await\<close> returns: the queue has been drained, or the worker has panicked.\<close>

definition worker_over :: "('n, 'k) server_conn \<Rightarrow> bool" where
  "worker_over c \<longleftrightarrow> cn_worker c = WGone \<or> cn_worker c = WIdle \<and> cn_work c = []"

text \<open>
  A move of the connection itself: of its task, of its worker, or of the peer whose bytes arrive.
\<close>

inductive server_move ::
  "('n, 'k) endpoint_code \<Rightarrow> ('n, 'k) server_conn \<times> broker \<times> chans \<Rightarrow>
   ('n, 'k) server_conn \<times> broker \<times> chans \<Rightarrow> bool"
  for code :: "('n, 'k) endpoint_code" where
  mv_closed:
    "cn_phase c = AtHead \<Longrightarrow> \<not> is_open (chs (cn_channel c)) \<Longrightarrow>
     server_move code (c, b, chs) (c\<lparr>cn_phase := Winding\<rparr>, b, chs)"
| mv_check:
    "cn_phase c = AtHead \<Longrightarrow> is_open (chs (cn_channel c)) \<Longrightarrow>
     server_move code (c, b, chs) (c\<lparr>cn_phase := Checked\<rparr>, b, chs)"
| mv_select:
    "cn_phase c = Checked \<Longrightarrow>
     server_move code (c, b, chs)
       (c\<lparr>cn_phase := AtSelect\<rparr>, b, set_loop (Some False) (cn_channel c) chs)"
| mv_read:
    "cn_phase c = AtSelect \<Longrightarrow>
     read_packet_before (cn_reader c) (cn_max_size c) (cn_deadline c) = Ok ro \<Longrightarrow>
     server_move code (c, b, chs) (loop_round ro c b (set_loop None (cn_channel c) chs))"
| mv_notified:
    "cn_phase c = AtSelect \<Longrightarrow> ch_loop (chs (cn_channel c)) = Some True \<Longrightarrow>
     server_move code (c, b, chs)
       (c\<lparr>cn_phase := Winding\<rparr>, b, set_loop None (cn_channel c) chs)"
| mv_wind:
    "cn_phase c = Winding \<Longrightarrow>
     server_move code (c, b, chs)
       (c\<lparr>cn_phase := Draining\<rparr>, b, chs(cn_channel c := close (chs (cn_channel c))))"
| mv_work:
    "order_ok ord \<Longrightarrow>
     worker_round code ord (cn_channel c) (cn_client_id c) (cn_worker c) (cn_work c) b chs = Some (w, work, chs') \<Longrightarrow>
     server_move code (c, b, chs) (c\<lparr>cn_worker := w, cn_work := work\<rparr>, b, chs')"
| mv_finish:
    "cn_phase c = Draining \<Longrightarrow> worker_over c \<Longrightarrow> order_ok ord \<Longrightarrow>
     unregister_session ord (cn_client_id c) (cn_connection_id c) (cn_graceful c) b chs = (b', chs') \<Longrightarrow>
     server_move code (c, b, chs) (c\<lparr>cn_phase := Finished (finish_result c)\<rparr>, b', chs')"
| mv_arrive:
    "rd_end (cn_reader c) = Stalled \<Longrightarrow>
     server_move code (c, b, chs)
       (c\<lparr>cn_reader := \<lparr>rd_bytes = rd_bytes (cn_reader c) @ arrived, rd_end = e\<rparr>\<rparr>, b, chs)"

text \<open>
  A step as the connection sees it: a move of its own, anything the other connections make of the broker
  and the channels, or the loop of another connection taking its reader and its \<^verbatim>\<open>notified()\<close> futures.
\<close>

inductive server_step ::
  "('n, 'k) endpoint_code \<Rightarrow> ('n, 'k) server_conn \<times> broker \<times> chans \<Rightarrow>
   ('n, 'k) server_conn \<times> broker \<times> chans \<Rightarrow> bool"
  for code :: "('n, 'k) endpoint_code" where
  sv_move: "server_move code s s' \<Longrightarrow> server_step code s s'"
| sv_others:
    "broker_step (b, chs) (b', chs') \<Longrightarrow> server_step code (c, b, chs) (c, b', chs')"
| sv_elsewhere:
    "x \<noteq> cn_channel c \<Longrightarrow>
     server_step code (c, b, chs) (c, b, chs(x := (chs x)\<lparr>ch_reader := rd, ch_loop := l\<rparr>))"

lemmas sv_closed = mv_closed [THEN sv_move]
lemmas sv_check = mv_check [THEN sv_move]
lemmas sv_select = mv_select [THEN sv_move]
lemmas sv_read = mv_read [THEN sv_move]
lemmas sv_notified = mv_notified [THEN sv_move]
lemmas sv_wind = mv_wind [THEN sv_move]
lemmas sv_work = mv_work [THEN sv_move]
lemmas sv_finish = mv_finish [THEN sv_move]
lemmas sv_arrive = mv_arrive [THEN sv_move]

abbreviation server_run ::
  "('n, 'k) endpoint_code \<Rightarrow> ('n, 'k) server_conn \<times> broker \<times> chans \<Rightarrow>
   ('n, 'k) server_conn \<times> broker \<times> chans \<Rightarrow> bool" where
  "server_run code \<equiv> rtranclp (server_step code)"

section \<open>Lemmas\<close>

lemma on_channel_simps [simp]:
  "fst (on_channel r f chs) = fst (f (chs r))" "snd (on_channel r f chs) = chs(r := snd (f (chs r)))"
  by (simp_all add: on_channel_def case_prod_beta)

lemma chans_ok_at: "chans_ok chs \<Longrightarrow> channel_ok (chs r)"
  by (simp add: chans_ok_def)

lemma chans_ok_with_session:
  "chans_ok chs \<Longrightarrow> (\<And>s. session_ok s \<Longrightarrow> session_ok (f s)) \<Longrightarrow> chans_ok (chs(r := with_session f (chs r)))"
  by (simp add: chans_ok_upd channel_ok_with_session chans_ok_at)

lemma chans_ok_send [inv_intros]: "chans_ok chs \<Longrightarrow> chans_ok (chs(r := snd (send_packet p (chs r))))"
  by (simp add: chans_ok_upd channel_ok_send_packet chans_ok_at)

lemma session_ok_take_qos2: "session_ok s \<Longrightarrow> session_ok (snd (take_qos2_publish i s))"
  by (rule session_ok_tables)

lemma dispatch_keeps_ok:
  assumes "broker_ok b" and "chans_ok chs"
    and "dispatch_server_inbound r cid conn alive p (b, chs, work) = (res, b', chs', work')"
  shows "broker_ok b' \<and> chans_ok chs'"
proof (cases p)
  case (Pubrel i)
  have "session_ok (snd (take_qos2_publish i (ch_session (chs r))))"
    using chans_ok_at [OF assms(2), of r] by (simp add: channel_ok_def session_ok_take_qos2)
  then have "chans_ok (chs(r := with_session (\<lambda>_. snd (take_qos2_publish i (ch_session (chs r)))) (chs r)))"
    using assms(2) by (intro chans_ok_with_session)
  with chans_ok_send [OF this, of r "Pubcomp i"] assms show ?thesis
    by (auto simp: Pubrel case_prod_beta Let_def split: outcome.splits)
qed (use assms in \<open>auto simp: case_prod_beta Let_def inv_intros chans_ok_at session_ok_wakes session_ok_tables
      intro!: chans_ok_with_session [simplified] chans_ok_upd channel_ok_with_session channel_ok_ack_pre_chain
        channel_ok_send_packet split: outcome.splits if_splits\<close>)

text \<open>What the proofs ask of endpoint code: it leaves channels well-formed and does not reopen one.\<close>

definition endpoint_safe :: "('n, 'k) endpoint_code \<Rightarrow> bool" where
  "endpoint_safe code \<longleftrightarrow>
     (\<forall>k chs. chans_ok chs \<longrightarrow> chans_ok (snd (snd (ep_poll code k chs)))) \<and>
     (\<forall>k chs r. \<not> ch_open (chs r) \<longrightarrow> \<not> ch_open (snd (snd (ep_poll code k chs)) r))"

lemma chain_poll_chans: "snd (chain_poll code r k nodes fo p chs) = snd (snd (ep_poll code k chs))"
  by (auto simp: chain_poll_def split: outcome.splits prod.splits)

lemma worker_round_keeps:
  assumes "endpoint_safe code" and "worker_round code ord r src w work b chs = Some (w', work', chs')"
  shows "chans_ok chs \<Longrightarrow> chans_ok chs'" and "\<not> ch_open (chs x) \<Longrightarrow> \<not> ch_open (chs' x)"
  using assms chain_poll_chans [of code r _ _ _ _ chs]
  by (auto simp: worker_round_def fan_out_def Let_def case_prod_beta endpoint_safe_def chans_ok_publish
      split: worker.splits list.splits option.splits)

lemma set_loop_keeps [simp]:
  "ch_open (set_loop l r chs x) = ch_open (chs x)" "chans_ok (set_loop l r chs) = chans_ok chs"
  "ch_connection_id (set_loop l r chs x) = ch_connection_id (chs x)"
  by (auto simp: set_loop_def chans_ok_def channel_ok_def)

lemma loop_round_keeps_ok:
  assumes "broker_ok b" and "chans_ok chs" and "loop_round ro c b chs = (c', b', chs')"
  shows "broker_ok b' \<and> chans_ok chs'"
proof (cases ro)
  case (ReadPacket p rd)
  obtain res b1 chs1 work where d: "dispatch_server_inbound (cn_channel c) (cn_client_id c) (cn_connection_id c)
      (cn_worker c \<noteq> WGone) p (b, chs, cn_work c) = (res, b1, chs1, work)" by (metis prod_cases4)
  from dispatch_keeps_ok [OF assms(1,2) d] d assms show ?thesis
    by (auto simp: loop_round_def ReadPacket Let_def split: if_splits outcome.splits)
qed (use assms in \<open>auto simp: loop_round_def split: mqtt_error.splits\<close>)

lemma server_move_keeps_ok:
  assumes "server_move code s s'" and "endpoint_safe code"
    and "broker_ok (fst (snd s))" and "chans_ok (snd (snd s))"
  shows "broker_ok (fst (snd s')) \<and> chans_ok (snd (snd s'))"
  using assms
proof (induction rule: server_move.induct)
  case (mv_read c ro b chs)
  obtain c' b' chs' where "loop_round ro c b (set_loop None (cn_channel c) chs) = (c', b', chs')"
    by (metis prod_cases3)
  with loop_round_keeps_ok [of b "set_loop None (cn_channel c) chs" ro c c' b' chs'] mv_read
  show ?case by simp
next
  case (mv_work ord c b chs w work chs')
  then show ?case using worker_round_keeps(1) [OF _ mv_work(2)] by simp
next
  case (mv_finish c ord b chs b' chs')
  then show ?case
    using broker_ok_unregister [of b ord "cn_client_id c" "cn_connection_id c" "cn_graceful c" chs]
      chans_ok_unregister [of chs ord "cn_client_id c" "cn_connection_id c" "cn_graceful c" b] by simp
qed (simp_all add: chans_ok_upd channel_ok_close chans_ok_at)

lemma chans_ok_elsewhere: "chans_ok chs \<Longrightarrow> chans_ok (chs(x := (chs x)\<lparr>ch_reader := rd, ch_loop := l\<rparr>))"
  by (auto simp: chans_ok_def channel_ok_def)

lemma server_step_keeps_ok:
  assumes "server_step code s s'" and "endpoint_safe code"
    and "broker_ok (fst (snd s))" and "chans_ok (snd (snd s))"
  shows "broker_ok (fst (snd s')) \<and> chans_ok (snd (snd s'))"
  using assms
proof (induction rule: server_step.induct)
  case (sv_others b chs b' chs' c)
  then show ?case using broker_step_ok [OF sv_others.hyps] by simp
qed (simp_all add: server_move_keeps_ok chans_ok_elsewhere)

interpretation server_tables: step_invariant "server_step code"
  "\<lambda>s. endpoint_safe code \<and> broker_ok (fst (snd s)) \<and> chans_ok (snd (snd s))"
  for code
  by unfold_locales (use server_step_keeps_ok in blast)

text \<open>A channel that is closed stays closed, whoever moves.\<close>

lemma ack_pre_chain_open [simp]:
  "ch_open (snd (ack_inbound_publish_pre_chain p ch)) = ch_open ch"
  by (simp add: ack_inbound_publish_pre_chain_def send_packet_def Let_def split: qos.splits option.splits)

lemma dispatch_open:
  "dispatch_server_inbound r cid conn alive p (b, chs, work) = (res, b', chs', work') \<Longrightarrow>
   ch_open (chs' x) = ch_open (chs x)"
  by (cases p) (auto simp: case_prod_beta Let_def send_packet_def split: outcome.splits if_splits)

lemma broker_step_closed:
  "broker_step s s' \<Longrightarrow> \<not> ch_open (snd s x) \<Longrightarrow> \<not> ch_open (snd s' x)"
proof (induction rule: broker_step.induct)
  case (b_channel chs r l ch' b)
  then show ?case
    using closed_stays_closed [OF run_snoc [OF run_nil b_channel.hyps]] by auto
next
  case (b_unregister ord b chs cid conn graceful)
  then show ?case
    using unregister_cases [of ord cid conn graceful b chs]
    by (auto simp: unregister_session_eq Let_def dest!: entry_of_connectionD split: if_splits)
qed (auto simp: register_session_parts split: option.splits)

lemma loop_round_open:
  "loop_round ro c b chs = (c', b', chs') \<Longrightarrow> ch_open (chs' x) = ch_open (chs x)"
  by (auto simp: loop_round_def Let_def dest: dispatch_open
      split: read_outcome.splits mqtt_error.splits if_splits outcome.splits prod.splits)

lemma server_move_closed:
  assumes "server_move code s s'" and "endpoint_safe code" and "\<not> ch_open (snd (snd s) x)"
  shows "\<not> ch_open (snd (snd s') x)"
  using assms
proof (induction rule: server_move.induct)
  case (mv_read c ro b chs)
  then show ?case
    using loop_round_open [of ro c b "set_loop None (cn_channel c) chs"]
    by (cases "loop_round ro c b (set_loop None (cn_channel c) chs)") auto
next
  case (mv_work ord c b chs w work chs')
  then show ?case using worker_round_keeps(2) [OF _ mv_work(2)] by simp
next
  case (mv_finish c ord b chs b' chs')
  then show ?case
    using broker_step_closed [OF b_unregister [OF mv_finish.hyps(3), of b chs "cn_client_id c"
          "cn_connection_id c" "cn_graceful c"], of x] by simp
qed auto

lemma server_step_closed:
  assumes "server_step code s s'" and "endpoint_safe code" and "\<not> ch_open (snd (snd s) x)"
  shows "\<not> ch_open (snd (snd s') x)"
  using assms
proof (induction rule: server_step.induct)
  case (sv_others b chs b' chs' c)
  then show ?case using broker_step_closed [OF sv_others.hyps] by simp
qed (auto simp: server_move_closed)

text \<open>What the phase of a connection says of its flags and of its channel.\<close>

definition conn_ok :: "('n, 'k) server_conn \<Rightarrow> chans \<Rightarrow> bool" where
  "conn_ok c chs \<longleftrightarrow>
     (cn_phase c \<in> {AtHead, Checked, AtSelect} \<longrightarrow> \<not> cn_graceful c \<and> cn_error c = None) \<and>
     (cn_graceful c \<longrightarrow> cn_error c = None) \<and>
     (cn_phase c \<in> {Draining} \<union> range Finished \<longrightarrow> \<not> ch_open (chs (cn_channel c)))"

lemma loop_round_cases:
  assumes "loop_round ro c b chs = (c', b', chs')"
  shows "cn_channel c' = cn_channel c" and "cn_client_id c' = cn_client_id c"
    and "cn_connection_id c' = cn_connection_id c"
    and "cn_phase c' = AtHead \<and> cn_graceful c' = cn_graceful c \<and> cn_error c' = cn_error c \<or>
      cn_phase c' = Winding \<and> (cn_graceful c' = cn_graceful c \<or> cn_error c' = cn_error c)"
    and "cn_graceful c' \<Longrightarrow> cn_graceful c \<or> (\<exists>rd. ro = ReadPacket Disconnect rd)"
  using assms
  by (auto simp: loop_round_def Let_def case_prod_beta
      split: read_outcome.splits mqtt_error.splits if_splits outcome.splits prod.splits)

lemma server_move_conn_ok:
  assumes "server_move code (c, b, chs) (c', b', chs')" and "endpoint_safe code" and "conn_ok c chs"
  shows "conn_ok c' chs' \<and> cn_channel c' = cn_channel c \<and> cn_client_id c' = cn_client_id c \<and>
    cn_connection_id c' = cn_connection_id c"
  using assms(1)
proof (cases rule: server_move.cases)
  case (mv_read ro)
  from loop_round_cases [OF mv_read(1) [symmetric]] mv_read(2) assms(3) show ?thesis
    by (auto simp: conn_ok_def)
qed (use assms server_move_closed [OF assms(1,2)] in \<open>auto simp: conn_ok_def is_open_def\<close>)

lemma server_step_conn_ok:
  assumes "server_step code (c, b, chs) (c', b', chs')" and "endpoint_safe code" and "conn_ok c chs"
  shows "conn_ok c' chs' \<and> cn_channel c' = cn_channel c \<and> cn_client_id c' = cn_client_id c \<and>
    cn_connection_id c' = cn_connection_id c"
  using assms(1)
proof (cases rule: server_step.cases)
  case sv_move
  then show ?thesis using server_move_conn_ok assms(2,3) by blast
qed (use assms server_step_closed [OF assms(1,2)] in \<open>auto simp: conn_ok_def\<close>)

interpretation server_task: step_invariant "server_step code"
  "\<lambda>s. endpoint_safe code \<and> conn_ok (fst s) (snd (snd s)) \<and> cn_channel (fst s) = r \<and>
    cn_client_id (fst s) = cid \<and> cn_connection_id (fst s) = conn"
  for code r cid conn
proof (unfold_locales, goal_cases)
  case (1 s s')
  then show ?case
    using server_step_conn_ok [of code "fst s" "fst (snd s)" "snd (snd s)" "fst s'" "fst (snd s')" "snd (snd s')"]
    by simp
qed

text \<open>
  What is left of a teardown: the steps of the connection's task and the publishes in the queue, then
  the endpoints of the chain in progress, then the future of the one that is running.
\<close>

definition tasks_left :: "('n, 'k) server_conn \<Rightarrow> nat" where
  "tasks_left c = (case cn_phase c of Winding \<Rightarrow> 2 | Draining \<Rightarrow> 1 | _ \<Rightarrow> 0) + length (cn_work c)"

fun endpoints_left :: "('n, 'k) worker \<Rightarrow> nat" where
  "endpoints_left (WRun k nodes fanout current) = Suc (length nodes)"
| "endpoints_left _ = 0"

fun in_progress :: "('n, 'k) worker \<Rightarrow> 'k" where
  "in_progress (WRun k nodes fanout current) = k"

interpretation teardown: step_invariant "server_step code"
  "\<lambda>s. cn_phase (fst s) \<in> {Winding, Draining} \<union> range Finished"
  for code
  by unfold_locales (auto elim!: server_step.cases server_move.cases)

end
