(* ===== verification/Mqtt_Server_Properties.thy ===== *)
theory Mqtt_Server_Properties
  imports Mqtt_Server
begin

text \<open>
  The server side is correct: who is admitted and what admission leaves behind, the deadline every
  admitted connection has, the QoS 2 handshake of the dispatcher, that every way out of the reader
  loop releases the session, and that the teardown comes to its end.
\<close>

section \<open>Lemmas\<close>

lemma unat_ucast_u16_u64: "unat (ucast (w :: u16) :: u64) = unat w"
proof -
  have "unat w < 2 ^ 64" by (rule less_trans [OF unat_u16_bound]) simp
  then show ?thesis by (simp add: unsigned_ucast_eq take_bit_nat_eq_self)
qed

lemma unat_deadline: "unat (ucast (w :: u16) * 1500 :: u64) = unat w * 1500"
proof -
  have "unat w * 1500 < 65536 * 1500" using unat_u16_bound [of w] by linarith
  then have "unat w * 1500 < 2 ^ 64" by (rule less_trans) simp
  then show ?thesis by (simp add: unat_word_ariths unat_ucast_u16_u64)
qed

lemma send_packet_live:
  "ch_actor ch \<noteq> Stopped \<Longrightarrow> send_packet p ch = (Ok (), ch\<lparr>ch_cmds := ch_cmds ch @ [CmdPacket p]\<rparr>)"
  by (simp add: send_packet_def cmd_send_def)

lemma register_other_channel:
  assumes "\<forall>c e. dm_get (sessions b) c = Some e \<longrightarrow> entry_channel e \<noteq> r"
  shows "snd (snd (register_session ord cid r will clean b chs)) r = chs r"
proof -
  have "publish ord src p (b\<lparr>sessions := dm_remove cid (sessions b)\<rparr>) chs' r = chs' r" for src p chs'
    using assms by (intro publish_other) (auto split: if_splits)
  then show ?thesis
    using assms by (auto simp: register_session_parts publish_will_def split: option.splits)
qed

text \<open>Admission past the two refusals, for a channel that nobody has registered and can be written to.\<close>

lemma server_admit_accepts:
  assumes "\<not> keep_alive_refused (safety b) (con_keep_alive connect)"
    and "auth_accepted (authenticate b connect (ch_remote_addr (chs r)))"
    and "\<forall>c e. dm_get (sessions b) c = Some e \<longrightarrow> entry_channel e \<noteq> r"
    and "ch_actor (chs r) \<noteq> Stopped"
    and "cid = effective_client_id connect (chs r)"
    and "register_session ord cid r (map_option will_of_packet (con_will connect)) (con_clean_session connect) b chs =
      (present, b', chs1)"
  shows "server_admit ord r connect b chs =
    (Ok \<lparr>adm_client_id = cid, adm_connection_id = ch_connection_id (chs r), adm_keep_alive = con_keep_alive connect\<rparr>,
     b', chs1(r := (with_session
       (\<lambda>s. snd (bind_set \<lparr>bind_client_id = cid, bind_keep_alive = con_keep_alive connect\<rparr> s)) (chs r))
       \<lparr>ch_cmds := ch_cmds (chs r) @ [CmdPacket (connack present Accepted)]\<rparr>))"
proof -
  have "chs1 r = chs r"
    using register_other_channel [OF assms(3), of ord cid] assms(6) by (metis snd_conv)
  then show ?thesis
    using assms by (simp add: server_admit_def Let_def on_channel_def send_packet_live)
qed

lemma entry_after_register:
  assumes "register_session ord cid r will clean b chs = (present, b', chs')" and "chs' r = chs r"
  shows "dm_get (sessions b') cid =
      Some \<lparr>entry_channel = r, entry_filters = [], entry_will = will, entry_clean_session = clean\<rparr>"
  using register_session_parts(2) [of ord cid r will clean b chs] assms(1) by simp

lemma unregister_released:
  assumes "unregister_session ord cid conn graceful b chs = (b', chs')"
  shows "entry_of_connection cid conn b' chs' = None"
    and "entry_of_connection cid conn b chs = Some e \<Longrightarrow>
      chs' = (if graceful then chs else publish_will ord (entry_will e) b' chs)"
proof -
  consider "entry_of_connection cid conn b chs = None"
    | e where "dm_get (sessions b) cid = Some e" "ch_connection_id (chs (entry_channel e)) = conn"
    using entry_of_connectionD [of cid conn b chs] by (cases "entry_of_connection cid conn b chs") auto
  then show "entry_of_connection cid conn b' chs' = None"
  proof cases
    case 1
    with assms unregister_session_stale [of cid conn b chs ord graceful] show ?thesis by simp
  next
    case (2 e)
    then have "dm_get (sessions b') cid = None"
      using assms unregister_session_eq [of b cid e chs conn ord graceful] by (auto simp: Let_def)
    then show ?thesis by (simp add: entry_of_connection_def)
  qed
  show "chs' = (if graceful then chs else publish_will ord (entry_will e) b' chs)"
    if "entry_of_connection cid conn b chs = Some e"
    using entry_of_connectionD [OF that] assms unregister_session_eq [of b cid e chs conn ord graceful]
    by (auto simp: Let_def)
qed

lemmas sr_step = rtranclp.rtrancl_into_rtrancl
lemmas sr_refl = rtranclp.rtrancl_refl

text \<open>
  A chain of endpoints as a trace of the worker, from the start of a chain to its end: the endpoint in
  progress is polled, on whatever the channels are by then, until it returns. Recorded are the
  packet each endpoint worked on and its result.
\<close>

inductive chain_trace ::
  "('n, 'k) endpoint_code \<Rightarrow> nat \<Rightarrow> ('n, 'k) worker \<times> publish_packet option \<Rightarrow>
   (publish_packet \<times> 'n mqtt_context result) list \<Rightarrow> publish_packet option \<Rightarrow> bool"
  for code :: "('n, 'k) endpoint_code" and r :: nat where
  trace_over: "chain_trace code r (WIdle, out) [] out"
| trace_wait:
    "fst (ep_poll code k chs) = Pending \<Longrightarrow>
     chain_trace code r (fst (chain_poll code r k nodes fo p chs)) rs out \<Longrightarrow>
     chain_trace code r (WRun k nodes fo p, None) rs out"
| trace_return:
    "fst (ep_poll code k chs) = res \<Longrightarrow> returns res \<Longrightarrow>
     chain_trace code r (fst (chain_poll code r k nodes fo p chs)) rs out \<Longrightarrow>
     chain_trace code r (WRun k nodes fo p, None) ((p, res) # rs) out"

fun rewritten :: "publish_packet \<Rightarrow> 'n mqtt_context result \<Rightarrow> publish_packet" where
  "rewritten p (Ok out) = propagate out p"
| "rewritten p _ = p"

fun lets_fanout :: "'n mqtt_context result \<Rightarrow> bool" where
  "lets_fanout (Ok ctx) = should_fanout ctx"
| "lets_fanout _ = False"

text \<open>What a chain amounts to, given the results of its endpoints.\<close>

definition chain_outcome ::
  "nat \<Rightarrow> bool \<Rightarrow> publish_packet \<Rightarrow> (publish_packet \<times> 'n mqtt_context result) list \<Rightarrow> publish_packet option \<Rightarrow> bool" where
  "chain_outcome n fo p rs out \<longleftrightarrow> length rs = n \<and>
     (\<forall>i < n. fst (rs ! i) = foldl rewritten p (map snd (take i rs))) \<and>
     out = (if fo \<and> list_all (lets_fanout \<circ> snd) rs then Some (foldl rewritten p (map snd rs)) else None)"

lemma chain_outcome_Nil: "chain_outcome 0 fo p [] (if fo then Some p else None)"
  by (simp add: chain_outcome_def)

lemma chain_outcome_Cons:
  assumes "chain_outcome n (fo \<and> lets_fanout res) (rewritten p res) rs out"
  shows "chain_outcome (Suc n) fo p ((p, res) # rs) out"
  using assms by (auto simp: chain_outcome_def nth_Cons split: nat.splits)

lemma chain_trace_outcome:
  "chain_trace code r w rs out \<Longrightarrow>
   (\<forall>k nodes fo p. w = (WRun k nodes fo p, None) \<longrightarrow> chain_outcome (Suc (length nodes)) fo p rs out) \<and>
   (\<forall>nodes fo p. w = chain_next code r nodes fo p \<longrightarrow> chain_outcome (length nodes) fo p rs out)"
proof (induction rule: chain_trace.induct)
  case (trace_over out)
  have "chain_outcome (length nodes) fo p [] out"
    if "(WIdle, out) = chain_next code r nodes fo p" for nodes fo p
    using that chain_outcome_Nil [of fo p] by (cases nodes) auto
  then show ?case by blast
next
  case (trace_wait k chs nodes fo p rs out)
  then have run: "chain_outcome (Suc (length nodes)) fo p rs out"
    by (cases "ep_poll code k chs") (auto simp: chain_poll_def)
  then have "chain_outcome (length nodes') fo' p' rs out"
    if "(WRun k nodes fo p, None) = chain_next code r nodes' fo' p'" for nodes' fo' p'
    using that by (cases nodes') auto
  with run show ?case by blast
next
  case (trace_return k chs res nodes fo p rs out)
  have "fst (chain_poll code r k nodes fo p chs) = chain_next code r nodes (fo \<and> lets_fanout res) (rewritten p res)"
    using trace_return.hyps(1,2) by (cases res; cases "ep_poll code k chs") (auto simp: chain_poll_def)
  then have "chain_outcome (length nodes) (fo \<and> lets_fanout res) (rewritten p res) rs out"
    using trace_return.IH by blast
  then have run: "chain_outcome (Suc (length nodes)) fo p ((p, res) # rs) out" by (rule chain_outcome_Cons)
  then have "chain_outcome (length nodes') fo' p' ((p, res) # rs) out"
    if "(WRun k nodes fo p, None) = chain_next code r nodes' fo' p'" for nodes' fo' p'
    using that by (cases nodes') auto
  with run show ?case by blast
qed

text \<open>
  What the teardown asks of endpoint code: on a closed connection no endpoint can be suspended for ever.
\<close>

definition suspended :: "('n, 'k) endpoint_code \<Rightarrow> nat \<Rightarrow> ('k \<times> 'k) set" where
  "suspended code r = {(k', k). \<exists>chs chs'. \<not> ch_open (chs r) \<and> ep_poll code k chs = (Pending, k', chs')}"

definition endpoint_ends :: "('n, 'k) endpoint_code \<Rightarrow> nat \<Rightarrow> bool" where
  "endpoint_ends code r \<longleftrightarrow> wf (suspended code r)"

definition drain_order ::
  "('n, 'k) endpoint_code \<Rightarrow> nat \<Rightarrow> (('n, 'k) server_conn \<times> ('n, 'k) server_conn) set" where
  "drain_order code r = inv_image (less_than <*lex*> less_than <*lex*> suspended code r)
     (\<lambda>c. (tasks_left c, endpoints_left (cn_worker c), in_progress (cn_worker c)))"

lemma wf_drain_order: "endpoint_ends code r \<Longrightarrow> wf (drain_order code r)"
  by (simp add: drain_order_def endpoint_ends_def wf_lex_prod)

lemma worker_round_decreases:
  assumes "worker_round code ord r src (cn_worker c) (cn_work c) b chs = Some (w, work, chs')" and "\<not> ch_open (chs r)"
  shows "(c\<lparr>cn_worker := w, cn_work := work\<rparr>, c) \<in> drain_order code r"
proof -
  have next_left: "endpoints_left (fst (chain_next code r nodes fo p)) = length nodes" for nodes fo p
    by (cases nodes) simp_all
  show ?thesis
  proof (cases "cn_worker c")
    case WIdle
    with assms(1) show ?thesis
      by (auto simp: worker_round_def Let_def case_prod_beta drain_order_def tasks_left_def split: list.splits)
  next
    case (WRun k nodes fo p)
    obtain res k' chs1 where e: "ep_poll code k chs = (res, k', chs1)" by (metis prod_cases3)
    have w: "work = cn_work c" "w = fst (fst (chain_poll code r k nodes fo p chs))"
      using assms(1) WRun by (auto simp: worker_round_def case_prod_beta Let_def)
    show ?thesis
    proof (cases res)
      case Pending
      with e assms(2) have "(k', k) \<in> suspended code r" by (auto simp: suspended_def)
      with Pending e w WRun show ?thesis by (simp add: drain_order_def chain_poll_def tasks_left_def)
    qed (use e w WRun in \<open>auto simp: drain_order_def chain_poll_def tasks_left_def next_left\<close>)
  next
    case WGone
    with assms(1) show ?thesis by (simp add: worker_round_def)
  qed
qed

lemma drain_step:
  assumes "server_step code (c, b, chs) (c', b', chs')" and "cn_phase c \<in> {Draining} \<union> range Finished"
    and "\<not> ch_open (chs (cn_channel c))"
  shows "(\<exists>rd. c' = c\<lparr>cn_reader := rd\<rparr>) \<or> (c', c) \<in> drain_order code (cn_channel c)"
  using assms(1)
proof (cases rule: server_step.cases)
  case sv_move
  then show ?thesis
  proof (cases rule: server_move.cases)
    case (mv_work ord w work)
    with worker_round_decreases [OF mv_work(4) assms(3)] show ?thesis by simp
  next
    case (mv_finish ord)
    then show ?thesis by (auto simp: drain_order_def tasks_left_def)
  qed (use assms(2) in \<open>auto intro: exI [of _ "cn_reader c"]\<close>)
qed (auto intro: exI [of _ "cn_reader c"])

lemma drain_completes:
  assumes "endpoint_safe code" and "endpoint_ends code r"
    and "cn_phase c = Draining" and "cn_channel c = r" and "\<not> ch_open (chs r)"
  shows "\<exists>c' b' chs'. server_run code (c, b, chs) (c', b', chs') \<and> cn_phase c' = Finished (finish_result c)"
  using assms(3-)
proof (induction c arbitrary: chs rule: wf_induct_rule [OF wf_drain_order [OF assms(2)]])
  case (1 c)
  show ?case
  proof (cases "worker_round code plain_order r (cn_client_id c) (cn_worker c) (cn_work c) b chs")
    case None
    then have over: "worker_over c"
      by (auto simp: worker_round_def worker_over_def Let_def case_prod_beta split: worker.splits list.splits)
    obtain b' chs' where "unregister_session plain_order (cn_client_id c) (cn_connection_id c) (cn_graceful c) b chs =
        (b', chs')" by fastforce
    with sv_finish [OF 1(2) over plain_order_ok this, of code] show ?thesis by (auto intro!: exI r_into_rtranclp)
  next
    case (Some x)
    then obtain w work chs1 where x: "worker_round code plain_order r (cn_client_id c) (cn_worker c) (cn_work c) b chs =
        Some (w, work, chs1)" by (cases x) auto
    let ?c = "c\<lparr>cn_worker := w, cn_work := work\<rparr>"
    have step: "server_step code (c, b, chs) (?c, b, chs1)"
      using x 1(3) by (intro sv_work [OF plain_order_ok]) simp
    have "\<not> ch_open (chs1 r)" by (rule worker_round_keeps(2) [OF assms(1) x 1(4)])
    with 1(1) [OF worker_round_decreases [OF x 1(4)], of chs1] 1(2,3)
    obtain c' b' chs' where "server_run code (?c, b, chs1) (c', b', chs')" "cn_phase c' = Finished (finish_result c)"
      by (auto simp: finish_result_def)
    with step show ?thesis by (meson converse_rtranclp_into_rtranclp)
  qed
qed

lemma conn_ok_start: "conn_ok (server_conn_start r b a rd) chs"
  by (auto simp: conn_ok_def server_conn_start_def)

lemma conn_start_fields:
  "cn_channel (server_conn_start r b a rd) = r" "cn_client_id (server_conn_start r b a rd) = adm_client_id a"
  "cn_connection_id (server_conn_start r b a rd) = adm_connection_id a"
  by (simp_all add: server_conn_start_def)

lemma started_conn_ok:
  assumes "endpoint_safe code" and "server_run code (server_conn_start r b a rd, b, chs) (c, b1, chs1)"
  shows "conn_ok c chs1" "cn_channel c = r" "cn_client_id c = adm_client_id a" "cn_connection_id c = adm_connection_id a"
  using server_task.run_keeps [OF assms(2), of r "adm_client_id a" "adm_connection_id a"] assms(1)
  by (simp_all add: conn_ok_start conn_start_fields)

text \<open>The step with which the connection's task returns is the teardown of its session, on a closed channel.\<close>

lemma finishing_step:
  assumes "server_step code (c, b1, chs1) (c', b2, chs2)" and "endpoint_safe code" and "conn_ok c chs1"
    and "\<not> (\<exists>res. cn_phase c = Finished res)" and "cn_phase c' = Finished res"
  obtains ord where "order_ok ord" "res = finish_result c" "\<not> is_open (chs2 (cn_channel c))"
    "unregister_session ord (cn_client_id c) (cn_connection_id c) (cn_graceful c) b1 chs1 = (b2, chs2)"
proof -
  have closed: "\<not> is_open (chs2 (cn_channel c))"
    using server_step_conn_ok [OF assms(1-3)] assms(5) by (auto simp: conn_ok_def is_open_def)
  from assms(1) show thesis
  proof (cases rule: server_step.cases)
    case sv_move
    then show thesis
    proof (cases rule: server_move.cases)
      case (mv_finish ord)
      then show thesis using that closed assms(5) by auto
    next
      case (mv_read ro)
      from loop_round_cases(4) [OF mv_read(1) [symmetric]] assms(5) show thesis by auto
    qed (use assms(4,5) in auto)
  qed (use assms(4,5) in auto)
qed

section \<open>Properties\<close>


definition joining_connect :: connect_packet where
  "joining_connect = \<lparr>con_client_id = ''d'', con_clean_session = True, con_keep_alive = 60,
     con_username = None, con_password = None, con_will = None\<rparr>"

lemma sample_broker_policy:
  "safety sample_broker = safety_new" "authenticator sample_broker = accept_all_authenticator"
  by (simp_all add: sample_broker_def broker_subscribe_def entry_of_connection_def register_session_parts
      broker_accept_all_def broker_build_def case_prod_beta)

lemma joining_connect_policy:
  "\<not> keep_alive_refused safety_new (con_keep_alive joining_connect)"
  "\<forall>c e. dm_get (sessions sample_broker) c = Some e \<longrightarrow> entry_channel e \<noteq> 1"
  "effective_client_id joining_connect ch = ''d''"
  by (simp_all add: keep_alive_refused_def joining_connect_def max_keep_alive_def safety_new_def
      DEFAULT_MAX_KEEP_ALIVE_def effective_client_id_def dm_get_def sample_broker_simps(1))

lemma sample_admitted:
  "\<exists>b' chs'. server_admit plain_order 1 joining_connect sample_broker fresh_chans =
    (Ok \<lparr>adm_client_id = ''d'', adm_connection_id = 1, adm_keep_alive = 60\<rparr>, b', chs')"
proof -
  obtain present b1 chs1 where reg: "register_session plain_order ''d'' 1
      (map_option will_of_packet (con_will joining_connect)) (con_clean_session joining_connect) sample_broker fresh_chans =
      (present, b1, chs1)" by (metis prod_cases3)
  have "\<not> keep_alive_refused (safety sample_broker) (con_keep_alive joining_connect)"
    by (simp add: sample_broker_policy joining_connect_policy)
  moreover have "auth_accepted (authenticate sample_broker joining_connect (ch_remote_addr (fresh_chans 1)))"
    by (simp add: sample_broker_policy authenticate_def accept_all_authenticator_def auth_accept_def)
  ultimately show ?thesis
    using server_admit_accepts [OF _ _ joining_connect_policy(2) _ joining_connect_policy(3) [symmetric] reg]
    by (simp add: joining_connect_def)
qed


text \<open>
  C32: every admitted connection is watched. Unless the operator allowed clients to disable keep-alive,
  a client that was admitted has a read deadline: exactly one and a half times the keep-alive it
  declared, in milliseconds without overflow, and at most one and a half times the configured
  maximum. A read that does not complete then ends the loop instead of waiting.
\<close>

theorem admitted_connections_have_deadline:
  assumes "server_admit ord r connect b chs = (Ok a, b', chs')" and "\<not> allows_disabled_keep_alive (safety b)"
  shows "\<exists>d. server_read_deadline (adm_keep_alive a) = Some d \<and>
    2 * unat d = 3 * (1000 * unat (con_keep_alive connect)) \<and>
    unat d \<le> 1500 * unat (max_keep_alive (safety b)) \<and>
    (\<forall>rd max. read_packet rd max = Pending \<longrightarrow> read_packet_before rd max (Some d) = Ok DeadlineElapsed)"
proof -
  have "\<not> keep_alive_refused (safety b) (con_keep_alive connect)" "adm_keep_alive a = con_keep_alive connect"
    using assms(1) by (auto simp: server_admit_def Let_def case_prod_beta split: if_splits outcome.splits)
  with assms(2) have ka: "con_keep_alive connect \<noteq> 0" "con_keep_alive connect \<le> max_keep_alive (safety b)"
    "adm_keep_alive a = con_keep_alive connect"
    by (auto simp: keep_alive_refused_def split: if_splits)
  from ka(2) have "unat (con_keep_alive connect) \<le> unat (max_keep_alive (safety b))"
    by (simp add: word_le_nat_alt)
  then show ?thesis
    using ka(1,3) by (simp add: server_read_deadline_def unat_deadline read_packet_before_def)
qed

theorem admitted_connections_have_deadline_witness:
  "\<exists>a b' chs' d. server_admit plain_order 1 joining_connect sample_broker fresh_chans = (Ok a, b', chs') \<and>
     server_read_deadline (adm_keep_alive a) = Some d \<and> 2 * unat d = 3 * (1000 * unat (con_keep_alive joining_connect))"
proof -
  obtain a b' chs' where ad: "server_admit plain_order 1 joining_connect sample_broker fresh_chans = (Ok a, b', chs')"
    using sample_admitted by blast
  have "\<not> allows_disabled_keep_alive (safety sample_broker)"
    by (simp add: sample_broker_policy allows_disabled_keep_alive_def safety_new_def)
  from admitted_connections_have_deadline [OF ad this] ad show ?thesis by blast
qed




text \<open>Endpoint code that hands its context back, with the topic's levels as the nodes found.\<close>

definition echo_code :: "(rstr, rstr mqtt_context) endpoint_code" where
  "echo_code = \<lparr>ep_nodes = segments_of, ep_start = (\<lambda>_ ctx. ctx), ep_poll = (\<lambda>ctx chs. (Ok ctx, ctx, chs))\<rparr>"

lemma echo_code_safe: "endpoint_safe echo_code" "endpoint_ends echo_code r"
  by (simp_all add: endpoint_safe_def endpoint_ends_def suspended_def echo_code_def)

definition sample_end :: "(rstr, rstr mqtt_context) server_conn" where
  "sample_end = (server_conn_start 0 sample_broker
     \<lparr>adm_client_id = ''c'', adm_connection_id = 0, adm_keep_alive = 60\<rparr> \<lparr>rd_bytes = [], rd_end = Eof\<rparr>)
     \<lparr>cn_phase := Draining\<rparr>"

abbreviation sample_start :: "(rstr, rstr mqtt_context) server_conn" where
  "sample_start \<equiv> server_conn_start 0 sample_broker \<lparr>adm_client_id = ''c'', adm_connection_id = 0, adm_keep_alive = 60\<rparr>
     \<lparr>rd_bytes = [], rd_end = Eof\<rparr>"

lemma sample_winding_run:
  "server_run echo_code (sample_start, sample_broker, fresh_chans(0 := close (fresh_chans 0)))
     (sample_end\<lparr>cn_phase := Winding\<rparr>, sample_broker, fresh_chans(0 := close (fresh_chans 0)))"
proof -
  have "server_step echo_code (sample_start, sample_broker, fresh_chans(0 := close (fresh_chans 0)))
      (sample_start\<lparr>cn_phase := Winding\<rparr>, sample_broker, fresh_chans(0 := close (fresh_chans 0)))"
    by (rule sv_closed) (simp_all add: server_conn_start_def is_open_def)
  then show ?thesis by (simp add: sample_end_def server_conn_start_def r_into_rtranclp)
qed

lemma sample_end_run:
  "server_run echo_code (sample_start, sample_broker, fresh_chans(0 := close (fresh_chans 0)))
     (sample_end, sample_broker, fresh_chans(0 := close (fresh_chans 0)))"
proof -
  have "server_step echo_code (sample_end\<lparr>cn_phase := Winding\<rparr>, sample_broker, fresh_chans(0 := close (fresh_chans 0)))
      (sample_end, sample_broker, fresh_chans(0 := close (fresh_chans 0)))"
    using sv_wind [of "sample_end\<lparr>cn_phase := Winding\<rparr>" echo_code sample_broker "fresh_chans(0 := close (fresh_chans 0))"]
    by (simp add: sample_end_def server_conn_start_def)
  with sample_winding_run show ?thesis by (rule rtranclp.rtrancl_into_rtrancl)
qed


text \<open>
  C20: the teardown terminates. Closing the connection comes first, and endpoint code that cannot be
  suspended for ever on a closed connection is all that is asked: from then on every move of the
  connection's task or of its worker, in whatever order and whatever the others do in between,
  descends in a well-founded order; the queue can always be run dry, an endpoint in progress
  included; and the task returns the error that ended the loop, if any.
\<close>

theorem teardown_completes:
  assumes "endpoint_safe code" and "endpoint_ends code r"
    and "server_run code (server_conn_start r b a rd, b, chs) (c, b1, chs1)" and "cn_phase c = Winding"
  shows "(\<exists>c' b' chs'. server_run code (c, b1, chs1) (c', b', chs') \<and>
      cn_phase c' = Finished (case cn_error c of None \<Rightarrow> Ok () | Some e \<Rightarrow> Err e)) \<and>
    wf (drain_order code r) \<and>
    (\<forall>c2 b2 chs2 c3 b3 chs3. server_run code (c, b1, chs1) (c2, b2, chs2) \<longrightarrow>
      server_step code (c2, b2, chs2) (c3, b3, chs3) \<longrightarrow> cn_phase c2 = Draining \<longrightarrow>
      (\<exists>rd. c3 = c2\<lparr>cn_reader := rd\<rparr>) \<or> (c3, c2) \<in> drain_order code r)"
proof (intro conjI allI impI)
  note c = started_conn_ok [OF assms(1,3)]
  let ?chs = "chs1(r := close (chs1 r))"
  have "server_step code (c, b1, chs1) (c\<lparr>cn_phase := Draining\<rparr>, b1, ?chs)"
    using sv_wind [OF assms(4), of code b1 chs1] c(2) by simp
  moreover obtain c' b' chs' where "server_run code (c\<lparr>cn_phase := Draining\<rparr>, b1, ?chs) (c', b', chs')"
    "cn_phase c' = Finished (finish_result c)"
    using drain_completes [OF assms(1,2), of "c\<lparr>cn_phase := Draining\<rparr>" ?chs b1] c(2)
    by (auto simp: finish_result_def)
  ultimately show "\<exists>c' b' chs'. server_run code (c, b1, chs1) (c', b', chs') \<and>
      cn_phase c' = Finished (case cn_error c of None \<Rightarrow> Ok () | Some e \<Rightarrow> Err e)"
    unfolding finish_result_def by (metis (no_types, lifting) converse_rtranclp_into_rtranclp option.case_eq_if)
  show "wf (drain_order code r)" by (rule wf_drain_order [OF assms(2)])
  show "(\<exists>rd. c3 = c2\<lparr>cn_reader := rd\<rparr>) \<or> (c3, c2) \<in> drain_order code r"
    if "server_run code (c, b1, chs1) (c2, b2, chs2)" "server_step code (c2, b2, chs2) (c3, b3, chs3)"
      "cn_phase c2 = Draining" for c2 b2 chs2 c3 b3 chs3
  proof -
    have "conn_ok c2 chs2 \<and> cn_channel c2 = r"
      using server_task.run_keeps [OF that(1), of r "cn_client_id c" "cn_connection_id c"] c assms(1) by simp
    then show ?thesis using drain_step [OF that(2)] that(3) by (auto simp: conn_ok_def)
  qed
qed

theorem teardown_completes_witness:
  "\<exists>c' b' chs'. server_run echo_code
      (sample_end\<lparr>cn_phase := Winding\<rparr>, sample_broker, fresh_chans(0 := close (fresh_chans 0))) (c', b', chs') \<and>
    cn_phase c' = Finished (Ok ())"
  using teardown_completes [OF echo_code_safe sample_winding_run]
  by (simp add: sample_end_def server_conn_start_def)

text \<open>
  C39: a close can be missed. The loop checks the open flag first and creates its shutdown future
  afterwards, and a notification leaves nothing behind for a future created later: if the channel is
  closed in between, the loop enters its \<^verbatim>\<open>select!\<close> on a closed channel with a future that has not been
  fired, and with no keep-alive and a silent peer neither arm can become ready on its own.
\<close>

theorem close_between_check_and_select_is_missed:
  assumes "cn_phase c = Checked" and "ch_handles (chs (cn_channel c))"
    and "cn_deadline c = None" and "read_packet (cn_reader c) (cn_max_size c) = Pending"
  shows "\<exists>c' chs'. server_run code (c, b, chs) (c', b, chs') \<and> cn_phase c' = AtSelect \<and>
    \<not> is_open (chs' (cn_channel c)) \<and> ch_loop (chs' (cn_channel c)) = Some False \<and>
    read_packet_before (cn_reader c') (cn_max_size c') (cn_deadline c') = Pending"
proof -
  let ?chs = "chs(cn_channel c := close (chs (cn_channel c)))"
  let ?c = "c\<lparr>cn_phase := AtSelect\<rparr>" and ?chs' = "set_loop (Some False) (cn_channel c) ?chs"
  have "server_step code (c, b, chs) (c, b, ?chs)"
    by (rule sv_others, rule b_channel, rule step_close) (rule assms(2))
  moreover have "server_step code (c, b, ?chs) (?c, b, ?chs')" by (rule sv_select) (rule assms(1))
  ultimately have "server_run code (c, b, chs) (?c, b, ?chs')" by (meson sr_refl sr_step)
  moreover have "read_packet_before (cn_reader ?c) (cn_max_size ?c) (cn_deadline ?c) = Pending"
    using assms(3,4) by (simp add: read_packet_before_def)
  moreover have "\<not> is_open (?chs' (cn_channel c))" "ch_loop (?chs' (cn_channel c)) = Some False"
    by (simp_all add: is_open_def set_loop_def)
  ultimately show ?thesis by (intro exI [of _ ?c] exI [of _ ?chs']) simp
qed

theorem close_between_check_and_select_is_missed_witness:
  "\<exists>c' chs'. server_run echo_code
      (sample_end\<lparr>cn_phase := Checked, cn_deadline := None, cn_reader := \<lparr>rd_bytes = [], rd_end = Stalled\<rparr>\<rparr>,
       sample_broker, fresh_chans) (c', sample_broker, chs') \<and>
    cn_phase c' = AtSelect \<and> \<not> is_open (chs' 0) \<and> ch_loop (chs' 0) = Some False"
proof -
  let ?c = "sample_end\<lparr>cn_phase := Checked, cn_deadline := None, cn_reader := \<lparr>rd_bytes = [], rd_end = Stalled\<rparr>\<rparr>"
  have "ch_handles (fresh_chans (cn_channel ?c))"
    by (simp add: fresh_chans_def channel_new_def next_connection_id_def)
  moreover have "read_packet (cn_reader ?c) (cn_max_size ?c) = Pending"
    by (simp add: read_packet_def read_exact_def)
  moreover have "cn_channel ?c = 0" by (simp add: sample_end_def server_conn_start_def)
  ultimately show ?thesis
    using close_between_check_and_select_is_missed [of ?c fresh_chans echo_code sample_broker]
    by fastforce
qed



text \<open>
  C36: the identifier the server assigns is unique among those it assigns, and no more. Two connections that
  name no identifier get different ones; but a client that names the identifier assigned to another
  connection is admitted under it like any other, takes the session over and closes the channel of the client
  that did not choose one.
\<close>

theorem automatic_id_can_be_claimed:
  assumes "con_client_id anon = []" and "auto = effective_client_id anon (chs x)"
    and "dm_get (sessions b) auto = Some e" and "entry_channel e = x"
    and "ch_connection_id (chs r) \<noteq> ch_connection_id (chs x)" and "con_client_id connect = auto"
    and "\<forall>c e. dm_get (sessions b) c = Some e \<longrightarrow> entry_channel e \<noteq> r"
    and "\<not> keep_alive_refused (safety b) (con_keep_alive connect)"
    and "auth_accepted (authenticate b connect (ch_remote_addr (chs r)))" and "ch_actor (chs r) \<noteq> Stopped"
    and "server_admit ord r connect b chs = (res, b', chs')"
  shows "effective_client_id anon (chs r) \<noteq> auto \<and>
    res = Ok \<lparr>adm_client_id = auto, adm_connection_id = ch_connection_id (chs r), adm_keep_alive = con_keep_alive connect\<rparr> \<and>
    \<not> is_open (chs' x) \<and> map_option entry_channel (dm_get (sessions b') auto) = Some r"
proof -
  have auto: "auto \<noteq> []" using assms(2) by (simp add: effective_client_id_def)
  then have cid: "auto = effective_client_id connect (chs r)" using assms(6) by (simp add: effective_client_id_def)
  let ?will = "map_option will_of_packet (con_will connect)"
  obtain present b1 chs1 where reg: "register_session ord auto r ?will (con_clean_session connect) b chs = (present, b1, chs1)"
    by (metis prod_cases3)
  note out = server_admit_accepts [OF assms(8,9,7,10) cid reg, unfolded assms(11)]
  note parts = register_session_parts [of ord auto r ?will "con_clean_session connect" b chs, unfolded reg fst_conv snd_conv]
  have "\<not> is_open (chs1 x)" using parts(3) assms(3,4) by (simp add: is_open_def)
  moreover have "r \<noteq> x" using assms(5) by auto
  moreover have "effective_client_id anon (chs r) \<noteq> auto"
    using assms(1,2,5) by (simp add: effective_client_id_def word_unat_eq_iff)
  ultimately show ?thesis using out parts(2) by (auto simp: is_open_def)
qed

text \<open>One anonymous client, registered on channel 0.\<close>

definition anonymous_broker :: broker where
  "anonymous_broker = fst (snd (register_session plain_order ''hotaru-auto-0'' 0 None True broker_accept_all fresh_chans))"

theorem automatic_id_can_be_claimed_witness:
  "let connect = joining_connect\<lparr>con_client_id := ''hotaru-auto-0''\<rparr>;
       (res, b', chs') = server_admit plain_order 1 connect anonymous_broker fresh_chans
   in (\<exists>a. res = Ok a \<and> adm_client_id a = ''hotaru-auto-0'') \<and> \<not> is_open (chs' 0)"
proof -
  let ?connect = "joining_connect\<lparr>con_client_id := ''hotaru-auto-0''\<rparr>"
  have anon: "con_client_id (joining_connect\<lparr>con_client_id := []\<rparr>) = []" by simp
  have auto: "''hotaru-auto-0'' = effective_client_id (joining_connect\<lparr>con_client_id := []\<rparr>) (fresh_chans 0)"
  proof -
    have "char_of (48 :: nat) = CHR ''0''" by code_simp
    then show ?thesis by (simp add: effective_client_id_def show_nat.simps)
  qed
  have get: "dm_get (sessions anonymous_broker) = [''hotaru-auto-0'' \<mapsto>
      \<lparr>entry_channel = 0, entry_filters = [], entry_will = None, entry_clean_session = True\<rparr>]"
    by (simp add: anonymous_broker_def register_session_parts broker_accept_all_def broker_build_def fun_eq_iff)
  have policy: "safety anonymous_broker = safety_new" "authenticator anonymous_broker = accept_all_authenticator"
    by (simp_all add: anonymous_broker_def register_session_parts broker_accept_all_def broker_build_def)
  have "\<not> keep_alive_refused (safety anonymous_broker) (con_keep_alive ?connect)"
    by (simp add: policy joining_connect_def keep_alive_refused_def max_keep_alive_def safety_new_def
        DEFAULT_MAX_KEEP_ALIVE_def)
  moreover have "auth_accepted (authenticate anonymous_broker ?connect (ch_remote_addr (fresh_chans 1)))"
    by (simp add: policy authenticate_def accept_all_authenticator_def auth_accept_def)
  moreover obtain res b' chs' where ad: "server_admit plain_order 1 ?connect anonymous_broker fresh_chans = (res, b', chs')"
    by (metis prod_cases3)
  ultimately show ?thesis
    using automatic_id_can_be_claimed [where x = 0 and r = 1 and chs = fresh_chans and b = anonymous_broker, OF anon auto _ _ _ _ _ _ _ _ ad]
    by (simp add: get)
qed

end
