(* ===== verification/Mqtt_Forward.thy ===== *)
theory Mqtt_Forward
  imports Mqtt_Broker_Spec Mqtt_Server_Properties
begin

text \<open>
  From one wire to the next: what the codec accepts of a publisher (\<^verbatim>\<open>src/src/codec\<close>) the broker's
  fan-out (\<^verbatim>\<open>src/src/broker.rs\<close>) hands to the writer actors of the subscribers (\<^verbatim>\<open>src/src/channel.rs\<close>),
  which stop at the first packet they cannot encode.
\<close>

section \<open>What a read PUBLISH is like\<close>

lemma read_packet_decoded:
  assumes "read_packet rd max_size = Ok (p, rd')"
  obtains rest where "decode_packet_from_bytes (rd_bytes rd) max_size = (Ok (Some p), rest)"
proof (cases "length (rd_bytes rd) = 1")
  case True
  then obtain b where "rd_bytes rd = [b]" by (metis One_nat_def length_0_conv length_Suc_conv)
  with assms show thesis
    by (cases "packet_type_try_from (drop_bit 4 b)"; cases "rd_end rd")
      (simp_all add: read_packet_def read_exact_1 read_remaining_length_slice Let_def
        decode_remaining_length_from_slice_def drl_loop.simps reader_of_slice_def)
next
  case False
  from assms have "fst (decode_packet_from_bytes (rd_bytes rd) max_size) = Ok (Some p)"
    by (auto simp: read_packet_decode [OF False] reader_verdict_def obind_Ok_iff split: option.splits stream_end.splits)
  then show thesis using that by (metis prod.collapse)
qed

lemma parse_packet_publish: "parse_packet first t n body = Ok (Publish p) \<Longrightarrow> parse_publish first body = Ok (Publish p)"
  by (cases t) (auto simp: parse_connect_def parse_connack_def parse_ack_packet_def parse_subscribe_def parse_suback_def
      parse_unsubscribe_def parse_unsuback_def require_empty_body_def Let_def outcome_simps split: if_splits packet_type.splits)

lemma read_publish_fields:
  assumes "read_packet rd max_size = Ok (Publish p, rd')"
  shows "str_field (pub_topic p)" and "pub_qos p = AtMostOnce \<longleftrightarrow> pub_packet_id p = None"
    and "length (pub_topic p) + length (pub_payload p) + (if pub_qos p = AtMostOnce then 2 else 4) \<le> max_size"
proof -
  obtain rest where "decode_packet_from_bytes (rd_bytes rd) max_size = (Ok (Some (Publish p)), rest)"
    by (rule read_packet_decoded [OF assms])
  then obtain first t body where pp: "parse_packet first t (length body) body = Ok (Publish p)" "length body \<le> max_size"
    by (rule decode_SomeD)
  from parse_packet_ok [OF pp(1)] show "str_field (pub_topic p)" "pub_qos p = AtMostOnce \<longleftrightarrow> pub_packet_id p = None"
    by simp_all
  from parse_publish_length [OF parse_packet_publish [OF pp(1)]] pp(2)
  show "length (pub_topic p) + length (pub_payload p) + (if pub_qos p = AtMostOnce then 2 else 4) \<le> max_size" by simp
qed

section \<open>What is made of it for a subscriber\<close>

lemma publish_wire_length:
  "wire_length (Publish p) = length (pub_topic p) + length (pub_payload p) + (if pub_packet_id p = None then 2 else 4)"
  by (simp add: wire_length_def publish_header_def split: option.splits)

text \<open>
  A packet with the topic and the payload of one that was read, at a quality of service not above it and
  with a fresh id when it needs one, can be encoded and is no longer.
\<close>

lemma adjusted_encodable:
  assumes "read_packet rd max_size = Ok (Publish p, rd')" and "max_size \<le> MQTT_SPEC_MAX_PACKET_SIZE"
    and "pub_topic p' = pub_topic p" "pub_payload p' = pub_payload p" "pub_qos p' = pub_qos p"
    and "d = adjusted_packet p' (min (pub_qos p') k) i"
    and "i = None \<longleftrightarrow> min (pub_qos p') k = AtMostOnce" "i \<noteq> Some 0"
  shows "wf_packet (Publish d) \<and> wire_length (Publish d) \<le> wire_length (Publish p)"
proof -
  note f = read_publish_fields [OF assms(1)]
  have d: "pub_topic d = pub_topic p" "pub_payload d = pub_payload p" "pub_packet_id d = i" "pub_qos d = min (pub_qos p) k"
    using assms(3-6) by (simp_all add: adjusted_packet_def)
  have i: "i = None" if "pub_qos p = AtMostOnce" using assms(5,7) that by simp
  have "length (pub_topic d) + length (pub_payload d) + (if pub_qos d = AtMostOnce then 2 else 4) \<le> MQTT_SPEC_MAX_PACKET_SIZE"
    using f(3) assms(2) d i assms(5,7) by (auto split: if_splits)
  then have "wf_publish d" using f(1) assms(5,7,8) d by (auto simp: wf_publish_def)
  moreover have "wire_length (Publish d) \<le> wire_length (Publish p)"
    using f(2) i by (auto simp: publish_wire_length d split: if_splits)
  ultimately show ?thesis by simp
qed

lemma perform_write_encodable:
  assumes "wf_packet (Publish d)" and "wr_limit w = None"
  shows "fst (perform_write (CmdPublish d) w) = Selecting False"
proof -
  obtain first t body where "frame_of (Publish d) = (first, t, body)" by (rule prod_cases3)
  from encode_packet_frame [OF assms(1) this] assms(2) show ?thesis
    by (simp add: write_publish_packet_eq_write_packet write_packet_def write_all_def)
qed

section \<open>Properties\<close>

text \<open>
  C16: no publisher can stop a subscriber's writer. Whatever PUBLISH the server has read from a wire, handed
  to the fan-out at once or, at QoS 2, when its PUBREL came: every command the fan-out queues for a
  subscriber is a PUBLISH that the wire format can carry, no longer than the one that was read, and
  the writer that takes it goes on.
\<close>

theorem forwarded_publish_keeps_writer_alive:
  assumes "broker_reachable (b, chs)" and "order_ok ord" and "dm_get (sessions b) c = Some e" and "c \<noteq> source"
    and "ch_actor (chs (entry_channel e)) \<noteq> Stopped"
    and "read_packet rd max_size = Ok (Publish p, rd')" and "max_size \<le> MQTT_SPEC_MAX_PACKET_SIZE"
    and "p' = p \<or> p' = released_publish i (incoming_from_packet p)"
    and "cmd \<in> set (new_commands chs (publish ord source p' b chs) (entry_channel e))"
  shows "\<exists>d. cmd = CmdPublish d \<and> wf_packet (Publish d) \<and> wire_length (Publish d) \<le> wire_length (Publish p) \<and>
    (\<forall>w. wr_limit w = None \<longrightarrow> fst (perform_write cmd w) = Selecting False)"
proof -
  have same: "pub_topic p' = pub_topic p" "pub_payload p' = pub_payload p" "pub_qos p' = pub_qos p"
    using assms(8) by (auto simp: released_publish_def incoming_from_packet_def)
  have "broker_ok b" using broker_reachable_ok [OF assms(1)] by simp
  from publish_client [OF this assms(2-4)] obtain qs where
    "publish ord source p' b chs (entry_channel e) = fold (deliver_to p') qs (chs (entry_channel e))" by blast
  with fold_deliver_to_cmds [OF assms(5), of p' qs] assms(9) obtain ids where
    cmd: "cmd \<in> set (map2 (\<lambda>q i. CmdPublish (adjusted_packet p' (min (pub_qos p') q) i)) qs ids)" and
    ids: "list_all2 (\<lambda>q i. (i = None \<longleftrightarrow> min (pub_qos p') q = AtMostOnce) \<and> i \<noteq> Some 0) qs ids"
    by (auto simp: new_commands_def)
  from cmd obtain k i where "(k, i) \<in> set (zip qs ids)"
    and c: "cmd = CmdPublish (adjusted_packet p' (min (pub_qos p') k) i)" by auto
  with ids have "i = None \<longleftrightarrow> min (pub_qos p') k = AtMostOnce" "i \<noteq> Some 0"
    by (auto simp: list_all2_iff)
  from adjusted_encodable [OF assms(6,7) same refl this] show ?thesis
    unfolding c by (auto simp: perform_write_encodable simp del: wf_packet.simps perform_write.simps)
qed

lemma routed_publish_wf: "wf_packet (Publish routed_publish)"
proof -
  have "is_str ''a/b''" by (simp add: is_str_def utf8_width_def utf8_tail_ok_def byte_of_char_def)
  then show ?thesis by (simp add: wf_publish_def str_field_def routed_publish_def MQTT_SPEC_MAX_PACKET_SIZE_def)
qed

theorem forwarded_publish_keeps_writer_alive_witness:
  "\<exists>rd cmd. read_packet rd 100 = Ok (Publish routed_publish, \<lparr>rd_bytes = [], rd_end = Stalled\<rparr>) \<and>
     cmd \<in> set (new_commands fresh_chans (publish plain_order ''p'' routed_publish sample_broker fresh_chans) 0) \<and>
     fst (perform_write cmd \<lparr>wr_bytes = [], wr_limit = None\<rparr>) = Selecting False"
proof -
  obtain first t body where f: "frame_of (Publish routed_publish) = (first, t, body)" by (rule prod_cases3)
  have "wire_length (Publish routed_publish) \<le> 100" by (simp add: publish_wire_length routed_publish_def)
  from read_packet_encoded [OF routed_publish_wf this encode_packet_frame [OF routed_publish_wf f], of "[]" Stalled]
  have rd: "read_packet \<lparr>rd_bytes = frame first body @ [], rd_end = Stalled\<rparr> 100 =
    Ok (Publish routed_publish, \<lparr>rd_bytes = [], rd_end = Stalled\<rparr>)" .
  obtain e where e: "dm_get (sessions sample_broker) ''c'' = Some e" "entry_channel e = 0"
    by (simp add: sample_broker_simps dm_get_def)
  from sample_delivery obtain cmd where
    cmd: "cmd \<in> set (new_commands fresh_chans (publish plain_order ''p'' routed_publish sample_broker fresh_chans) (entry_channel e))"
    by (auto simp: sent_to_def e)
  have "fst (perform_write cmd \<lparr>wr_bytes = [], wr_limit = None\<rparr>) = Selecting False"
    using forwarded_publish_keeps_writer_alive [OF sample_reachable plain_order_ok e(1) _ _ rd _ _ cmd, of 0]
    by (auto simp: MQTT_SPEC_MAX_PACKET_SIZE_def simp del: perform_write.simps)
  with rd cmd e(2) show ?thesis by auto
qed

end
