(* ===== verification/Mqtt_Link.thy ===== *)
theory Mqtt_Link
  imports Mqtt_Channel Mqtt_Codec
begin

text \<open>
  Two ends of a wire: the writer actor of one connection (\<^verbatim>\<open>src/src/channel.rs\<close>) and the reader of its
  peer (\<^verbatim>\<open>src/src/codec/mod.rs\<close>), with the bytes between them arriving in pieces of any size at any time.
\<close>

section \<open>The link\<close>

text \<open>
  \<open>ln_arrived\<close> counts the bytes of the sender's output that have reached the peer; \<open>ln_reader\<close> holds
  those that no read has taken yet; \<open>ln_received\<close> is what the reads returned.
\<close>

record link =
  ln_chan :: channel
  ln_arrived :: nat
  ln_reader :: reader
  ln_max :: usize
  ln_received :: "packet list"

definition link_start :: "channel \<Rightarrow> usize \<Rightarrow> link" where
  "link_start ch max_size =
     \<lparr>ln_chan = ch, ln_arrived = 0, ln_reader = \<lparr>rd_bytes = [], rd_end = Stalled\<rparr>, ln_max = max_size, ln_received = []\<rparr>"

definition link_output :: "link \<Rightarrow> u8 list" where
  "link_output k = wr_bytes (ch_writer (ln_chan k))"

datatype link_label = LSender chan_label | LArrived nat | LRead packet

inductive link_step :: "link \<Rightarrow> link_label \<Rightarrow> link \<Rightarrow> bool" where
  ln_sender:
    "chan_step (ln_chan k) l ch \<Longrightarrow> link_step k (LSender l) (k\<lparr>ln_chan := ch\<rparr>)"
| ln_arrive:
    "ln_arrived k + n \<le> length (link_output k) \<Longrightarrow>
     link_step k (LArrived n)
       (k\<lparr>ln_arrived := ln_arrived k + n,
          ln_reader := (ln_reader k)\<lparr>rd_bytes := rd_bytes (ln_reader k) @ take n (drop (ln_arrived k) (link_output k))\<rparr>\<rparr>)"
| ln_read:
    "read_packet (ln_reader k) (ln_max k) = Ok (p, rd) \<Longrightarrow>
     link_step k (LRead p) (k\<lparr>ln_reader := rd, ln_received := ln_received k @ [p]\<rparr>)"

fun sender_of :: "link_label \<Rightarrow> chan_label list" where
  "sender_of (LSender l) = [l]"
| "sender_of _ = []"

definition sender_labels :: "link_label list \<Rightarrow> chan_label list" where
  "sender_labels ls = concat (map sender_of ls)"

fun packets_of :: "write_cmd \<Rightarrow> packet list" where
  "packets_of (CmdPacket p) = [p]"
| "packets_of (CmdPublish p) = [Publish p]"
| "packets_of _ = []"

text \<open>The packets the sender accepted, and those it has written.\<close>

definition accepted :: "link_label list \<Rightarrow> packet list" where
  "accepted ls = concat (map packets_of (enqueued (sender_labels ls)))"

definition transmitted :: "link_label list \<Rightarrow> packet list" where
  "transmitted ls = concat (map packets_of (written (sender_labels ls)))"

definition packet_bytes :: "packet \<Rightarrow> u8 list" where
  "packet_bytes p = (case encode_packet p of Ok bs \<Rightarrow> bs | _ \<Rightarrow> [])"

definition carried :: "usize \<Rightarrow> packet list \<Rightarrow> bool" where
  "carried max_size ps \<longleftrightarrow> (\<forall>p\<in>set ps. wf_packet p \<and> wire_length p \<le> max_size)"

section \<open>Lemmas\<close>

lemma sender_labels_simps [simp]:
  "sender_labels [] = []" "sender_labels (ls @ [l]) = sender_labels ls @ sender_of l"
  by (simp_all add: sender_labels_def)

lemma written_enqueued_append [simp]:
  "enqueued (xs @ ys) = enqueued xs @ enqueued ys" "written (xs @ ys) = written xs @ written ys"
  by (simp_all add: enqueued_def written_def)

lemma cmd_bytes_packets: "cmd_bytes c = concat (map packet_bytes (packets_of c))"
  by (cases c) (simp_all add: packet_bytes_def)

lemma cmds_bytes_packets: "concat (map cmd_bytes cs) = concat (map packet_bytes (concat (map packets_of cs)))"
  by (induction cs) (simp_all add: cmd_bytes_packets)

lemma carried_append [simp]: "carried m (xs @ ys) \<longleftrightarrow> carried m xs \<and> carried m ys"
  by (auto simp: carried_def)

lemma packet_bytes_encoded: "wf_packet p \<Longrightarrow> encode_packet p = Ok (packet_bytes p)"
  using encode_packet_frame [of p] by (cases "frame_of p") (simp add: packet_bytes_def)

text \<open>
  What a read finds at the front of a stream of encoded packets: the next packet, as soon as all its
  bytes are there, and until then nothing.
\<close>

lemma read_next:
  assumes "wf_packet p" and "wire_length p \<le> max_size" and "bs @ flight = packet_bytes p @ tail"
  shows "read_packet \<lparr>rd_bytes = bs, rd_end = Stalled\<rparr> max_size =
    (if length (packet_bytes p) \<le> length bs
     then Ok (p, \<lparr>rd_bytes = drop (length (packet_bytes p)) bs, rd_end = Stalled\<rparr>) else Pending)"
proof (cases "length (packet_bytes p) \<le> length bs")
  case True
  then have "bs = packet_bytes p @ drop (length (packet_bytes p)) bs"
    using assms(3) by (metis append_eq_append_conv_if append_eq_conv_conj)
  with True read_packet_encoded [OF assms(1,2) packet_bytes_encoded [OF assms(1)]] show ?thesis by metis
next
  case False
  then have "bs = take (length bs) (packet_bytes p)"
    using assms(3) by (metis append_eq_conv_conj nat_le_linear take_all_iff take_append append_Nil2 diff_is_0_eq take_0)
  with False read_packet_partial [OF assms(1,2) packet_bytes_encoded [OF assms(1)], of "length bs"] show ?thesis by auto
qed

text \<open>An encoded packet has bytes, so a read of nothing waits.\<close>

lemma read_nothing: "read_packet \<lparr>rd_bytes = [], rd_end = Stalled\<rparr> max_size = Pending"
  by (simp add: read_packet_decode reader_verdict_def decode_packet_from_bytes_def)

text \<open>
  The account of a link: the sender's part is a run of its connection, the peer has received the first
  of the packets written, and the bytes it has not read, arrived or not, are the encodings of the rest.
\<close>

definition link_account :: "channel \<Rightarrow> link_label list \<Rightarrow> link \<Rightarrow> bool" where
  "link_account ch0 ls k \<longleftrightarrow>
     chan_run ch0 (sender_labels ls) (ln_chan k) \<and> ln_arrived k \<le> length (link_output k) \<and>
     (carried (ln_max k) (transmitted ls) \<longrightarrow> rd_end (ln_reader k) = Stalled \<and>
        (\<exists>unread. transmitted ls = ln_received k @ unread \<and>
           rd_bytes (ln_reader k) @ drop (ln_arrived k) (link_output k) = concat (map packet_bytes unread)))"

lemma link_step_max: "link_step k l k' \<Longrightarrow> ln_max k' = ln_max k"
  by (induction rule: link_step.induct) simp_all

lemma read_front:
  assumes "carried m unread" and "bs @ flight = concat (map packet_bytes unread)"
  shows "read_packet \<lparr>rd_bytes = bs, rd_end = Stalled\<rparr> m =
    (case unread of
       [] \<Rightarrow> Pending
     | p # _ \<Rightarrow> if length (packet_bytes p) \<le> length bs
         then Ok (p, \<lparr>rd_bytes = drop (length (packet_bytes p)) bs, rd_end = Stalled\<rparr>) else Pending)"
  using assms read_next by (cases unread) (auto simp: carried_def read_nothing)

lemma sender_output:
  assumes "chan_run ch0 (sender_labels ls) ch" and "wr_limit (ch_writer ch0) = None"
  shows "wr_bytes (ch_writer ch) = wr_bytes (ch_writer ch0) @ concat (map packet_bytes (transmitted ls))"
  using writer_bytes [OF assms] by (simp add: cmds_bytes_packets transmitted_def)

lemma append_drop_front: "xs @ ys = us @ vs \<Longrightarrow> length us \<le> length xs \<Longrightarrow> drop (length us) xs @ ys = vs"
  by (metis append_eq_conv_conj diff_is_0_eq drop_0 drop_append)

lemma link_account_step:
  assumes step: "link_step k l k'" and acc: "link_account ch0 ls k" and wire: "wr_limit (ch_writer ch0) = None"
  shows "link_account ch0 (ls @ [l]) k'"
  using step
proof (cases rule: link_step.cases)
  case (ln_sender c ch)
  have run: "chan_run ch0 (sender_labels (ls @ [l])) ch"
    using acc ln_sender by (auto simp: link_account_def intro: run_snoc)
  define new where "new = concat (map packets_of (written_of c))"
  have tr: "transmitted (ls @ [l]) = transmitted ls @ new"
    by (simp add: transmitted_def ln_sender new_def written_def)
  have out: "wr_bytes (ch_writer ch) = wr_bytes (ch_writer (ln_chan k)) @ concat (map packet_bytes new)"
    using sender_output [OF run wire] sender_output [OF _ wire, of ls "ln_chan k"] acc tr
    by (simp add: link_account_def)
  show ?thesis
    using acc run tr by (auto simp: link_account_def ln_sender(2) out link_output_def)
next
  case (ln_arrive n)
  have "take n (drop (ln_arrived k) (link_output k)) @ drop (ln_arrived k + n) (link_output k) =
      drop (ln_arrived k) (link_output k)"
    by (metis add.commute append_take_drop_id drop_drop)
  then show ?thesis
    using acc ln_arrive by (auto simp: link_account_def transmitted_def link_output_def)
next
  case (ln_read p rd)
  have "\<exists>unread'. transmitted ls = (ln_received k @ [p]) @ unread' \<and> rd_end rd = Stalled \<and>
      rd_bytes rd @ drop (ln_arrived k) (link_output k) = concat (map packet_bytes unread')"
    if c: "carried (ln_max k) (transmitted ls)"
  proof -
    from acc c obtain unread where un: "transmitted ls = ln_received k @ unread"
      "rd_bytes (ln_reader k) @ drop (ln_arrived k) (link_output k) = concat (map packet_bytes unread)"
      by (auto simp: link_account_def)
    have "ln_reader k = \<lparr>rd_bytes = rd_bytes (ln_reader k), rd_end = Stalled\<rparr>"
      using acc c by (simp add: link_account_def)
    with read_front [OF _ un(2), of "ln_max k"] ln_read(3) c un(1) obtain unread' where
      "unread = p # unread'" "length (packet_bytes p) \<le> length (rd_bytes (ln_reader k))"
      "rd = \<lparr>rd_bytes = drop (length (packet_bytes p)) (rd_bytes (ln_reader k)), rd_end = Stalled\<rparr>"
      by (auto split: list.splits if_splits)
    with un append_drop_front [of "rd_bytes (ln_reader k)" _ "packet_bytes p" "concat (map packet_bytes unread')"]
    show ?thesis by simp
  qed
  then show ?thesis
    using acc ln_read by (auto simp: link_account_def transmitted_def link_output_def)
qed

text \<open>The sender of a link is a fresh connection on a wire that takes every byte.\<close>

definition fresh_sender :: "channel \<Rightarrow> bool" where
  "fresh_sender ch \<longleftrightarrow> (\<exists>rd meta role counter. ch = fst (channel_new rd \<lparr>wr_bytes = [], wr_limit = None\<rparr> meta role counter))"

lemma fresh_sender_simps:
  "fresh_sender ch \<Longrightarrow> ch_writer ch = \<lparr>wr_bytes = [], wr_limit = None\<rparr> \<and> ch_actor ch = Selecting False \<and> ch_cmds ch = []"
  by (auto simp: fresh_sender_def channel_new_def next_connection_id_def)

interpretation link: history_invariant link_step "\<lambda>ls k. fresh_sender ch0 \<longrightarrow> link_account ch0 ls k" for ch0
  by unfold_locales (simp add: link_account_step fresh_sender_simps)

lemma link_run_account:
  assumes "labelled_run link_step (link_start ch0 m) ls k" and "fresh_sender ch0"
  shows "link_account ch0 ls k" and "ln_max k = m"
proof -
  have "link_account ch0 [] (link_start ch0 m)"
    using fresh_sender_simps [OF assms(2)]
    by (simp add: link_account_def link_start_def link_output_def run_nil transmitted_def)
  with link.run_history [OF assms(1), of ch0] assms(2) show "link_account ch0 ls k" by simp
  show "ln_max k = m"
    using assms(1) by (induction s \<equiv> "link_start ch0 m" ls k rule: labelled_run.induct)
      (simp_all add: link_start_def link_step_max)
qed

section \<open>Properties\<close>

text \<open>
  C5: what one end sends, the other end reads. Whatever tasks send on a connection and in however many
  pieces its bytes arrive at the peer, as long as every packet accepted is one the wire format can carry
  within the peer's size limit: the packets the peer has read are the first of the packets accepted, in order
  and unaltered; a read never fails, it returns the next packet or waits; and once all bytes written have
  arrived and no read can go on, everything written has been read, which is everything accepted when the
  writer is idle with an empty queue.
\<close>

theorem link_delivers_in_order:
  assumes "fresh_sender ch0" and "labelled_run link_step (link_start ch0 max_size) ls k"
    and "\<forall>p\<in>set (accepted ls). wf_packet p \<and> wire_length p \<le> max_size"
  shows "\<exists>unread. accepted ls = ln_received k @ unread \<and>
    (read_packet (ln_reader k) max_size = Pending \<or>
      (\<exists>p unread' rd. unread = p # unread' \<and> read_packet (ln_reader k) max_size = Ok (p, rd))) \<and>
    (read_packet (ln_reader k) max_size = Pending \<longrightarrow> ln_arrived k = length (link_output k) \<longrightarrow>
      ln_received k = transmitted ls \<and>
      (ch_actor (ln_chan k) = Selecting b \<longrightarrow> ch_cmds (ln_chan k) = [] \<longrightarrow> unread = []))"
proof -
  note acc = link_run_account [OF assms(2,1)]
  have run: "chan_run ch0 (sender_labels ls) (ln_chan k)" using acc(1) by (simp add: link_account_def)
  obtain lost where lost: "enqueued (sender_labels ls) = written (sender_labels ls) @ in_hand (ch_actor (ln_chan k)) @
      ch_cmds (ln_chan k) @ lost" "lost = [] \<or> ch_actor (ln_chan k) = Stopped"
    using queue_order [OF run] fresh_sender_simps [OF assms(1)] by auto
  define later where "later = concat (map packets_of (in_hand (ch_actor (ln_chan k)) @ ch_cmds (ln_chan k) @ lost))"
  have all: "accepted ls = transmitted ls @ later"
    by (simp add: accepted_def transmitted_def lost(1) later_def)
  then have c: "carried max_size (transmitted ls)" using assms(3) by (simp add: carried_def)
  with acc obtain unread where un: "transmitted ls = ln_received k @ unread"
    "rd_bytes (ln_reader k) @ drop (ln_arrived k) (link_output k) = concat (map packet_bytes unread)"
    "rd_end (ln_reader k) = Stalled"
    by (auto simp: link_account_def)
  then have "ln_reader k = \<lparr>rd_bytes = rd_bytes (ln_reader k), rd_end = Stalled\<rparr>" by simp
  with read_front [OF _ un(2), of max_size] c un(1)
  have rp: "read_packet (ln_reader k) max_size = (case unread of [] \<Rightarrow> Pending
     | p # _ \<Rightarrow> if length (packet_bytes p) \<le> length (rd_bytes (ln_reader k))
         then Ok (p, \<lparr>rd_bytes = drop (length (packet_bytes p)) (rd_bytes (ln_reader k)), rd_end = Stalled\<rparr>) else Pending)"
    by simp
  have "unread = []" if "read_packet (ln_reader k) max_size = Pending" "ln_arrived k = length (link_output k)"
    using that un(2) rp by (cases unread) (auto split: if_splits)
  then show ?thesis
    using all un(1) rp lost(2)
    by (intro exI [of _ "unread @ later"]) (auto simp: later_def split: list.splits if_splits)
qed

theorem link_delivers_in_order_witness:
  "let ch = fst (channel_new \<lparr>rd_bytes = [], rd_end = Eof\<rparr> \<lparr>wr_bytes = [], wr_limit = None\<rparr> (None, None) ServerRole 1);
       p = CmdPacket Pingresp;
       ls = [LSender (Enqueued p), LSender (Took p), LSender (Wrote p), LArrived 1]
   in \<exists>k unread. labelled_run link_step (link_start ch 10) ls k \<and> ln_arrived k = 1 \<and> [Pingresp] = ln_received k @ unread \<and>
        (read_packet (ln_reader k) 10 = Pending \<or> (\<exists>p us rd. unread = p # us \<and> read_packet (ln_reader k) 10 = Ok (p, rd)))"
proof -
  define ch where "ch = fst (channel_new \<lparr>rd_bytes = [], rd_end = Eof\<rparr> \<lparr>wr_bytes = [], wr_limit = None\<rparr>
    (None, None) ServerRole 1)"
  let ?p = "CmdPacket Pingresp"
  let ?ls = "[LSender (Enqueued ?p), LSender (Took ?p), LSender (Wrote ?p), LArrived 1]"
  let ?k = "\<lambda>ch'. (link_start ch 10)\<lparr>ln_chan := ch'\<rparr>"
  have fresh: "fresh_sender ch" unfolding fresh_sender_def ch_def by blast
  note ch_simps = ch_def channel_new_def next_connection_id_def link_start_def link_output_def
  define ch3 where "ch3 = ch\<lparr>ch_actor := Selecting False, ch_writer := \<lparr>wr_bytes = [0xD0, 0x00], wr_limit = None\<rparr>\<rparr>"
  have k1: "link_step (link_start ch 10) (LSender (Enqueued ?p)) (?k (ch\<lparr>ch_cmds := [?p]\<rparr>))"
    using ln_sender [of "link_start ch 10" "Enqueued ?p"] by (auto simp: chan_step.simps cmd_send_def ch_simps)
  have k2: "link_step (?k (ch\<lparr>ch_cmds := [?p]\<rparr>)) (LSender (Took ?p)) (?k (ch\<lparr>ch_actor := Writing ?p\<rparr>))"
    using ln_sender [of "?k (ch\<lparr>ch_cmds := [?p]\<rparr>)" "Took ?p" "ch\<lparr>ch_actor := Writing ?p\<rparr>"]
    by (auto simp: chan_step.simps ch_simps)
  have k3: "link_step (?k (ch\<lparr>ch_actor := Writing ?p\<rparr>)) (LSender (Wrote ?p)) (?k ch3)"
    using ln_sender [of "?k (ch\<lparr>ch_actor := Writing ?p\<rparr>)" "Wrote ?p" ch3]
    by (auto simp: chan_step.simps write_packet_def write_all_def ch3_def ch_simps)
  define k4 where "k4 = (?k ch3)\<lparr>ln_arrived := 1, ln_reader := \<lparr>rd_bytes = [0xD0], rd_end = Stalled\<rparr>\<rparr>"
  have k4: "link_step (?k ch3) (LArrived 1) k4"
    using ln_arrive [of "?k ch3" 1] by (simp add: k4_def ch3_def ch_simps)
  note lrun = lrun_snoc [where step = link_step]
  have run: "labelled_run link_step (link_start ch 10) ?ls k4"
    using lrun [OF lrun [OF lrun [OF lrun [OF lrun_nil k1] k2] k3] k4] by simp
  have "accepted ?ls = [Pingresp]"
    by (simp add: accepted_def sender_labels_def enqueued_def)
  then show ?thesis
    using link_delivers_in_order [OF fresh run, of False] run unfolding Let_def ch_def [symmetric]
    by (intro exI [of _ k4]) (auto simp: wire_length_def k4_def)
qed

end
