(* ===== verification/Mqtt_Client.thy ===== *)
theory Mqtt_Client
  imports Mqtt_Server
begin

text \<open>
  The client side: \<^verbatim>\<open>src/src/client.rs\<close> (the configuration and its builder) and
  \<^verbatim>\<open>src/src/protocol/client.rs\<close> (ping interval, CONNECT, the opening handshake, the dispatch of
  inbound packets). Endpoint code on the client is spawned and its result ignored; a spawned task
  is a value of \<open>job\<close> in the list of tasks spawned.
\<close>

section \<open>client.rs: configuration\<close>

text \<open>\<open>'h\<close> is the application's fallback handler.\<close>

record 'h client_config =
  cfg_client_id :: rstr
  cfg_clean_session :: bool
  cfg_keep_alive_secs :: u16
  cfg_connect_timeout :: duration
  cfg_credentials :: "credentials option"
  cfg_initial_subscriptions :: "topic_filter list"
  cfg_will :: "will_message option"
  cfg_default_inbound :: "'h option"
  cfg_safety :: mqtt_safety

definition client_config_new :: "rstr \<Rightarrow> 'h client_config" where
  "client_config_new cid =
     \<lparr>cfg_client_id = cid, cfg_clean_session = True, cfg_keep_alive_secs = 60,
      cfg_connect_timeout = 30 * 1000, cfg_credentials = None, cfg_initial_subscriptions = [],
      cfg_will = None, cfg_default_inbound = None, cfg_safety = safety_new\<rparr>"

definition cfg_with_safety :: "mqtt_safety \<Rightarrow> 'h client_config \<Rightarrow> 'h client_config" where
  "cfg_with_safety sf cfg = cfg\<lparr>cfg_safety := sf\<rparr>"

definition cfg_set_clean_session :: "bool \<Rightarrow> 'h client_config \<Rightarrow> 'h client_config" where
  "cfg_set_clean_session v cfg = cfg\<lparr>cfg_clean_session := v\<rparr>"

definition cfg_keep_alive :: "u16 \<Rightarrow> 'h client_config \<Rightarrow> 'h client_config" where
  "cfg_keep_alive secs cfg = cfg\<lparr>cfg_keep_alive_secs := secs\<rparr>"

definition cfg_set_connect_timeout :: "duration \<Rightarrow> 'h client_config \<Rightarrow> 'h client_config" where
  "cfg_set_connect_timeout t cfg = cfg\<lparr>cfg_connect_timeout := t\<rparr>"

definition cfg_with_credentials :: "rstr \<Rightarrow> u8 list \<Rightarrow> 'h client_config \<Rightarrow> 'h client_config" where
  "cfg_with_credentials u p cfg = cfg\<lparr>cfg_credentials := Some \<lparr>cred_username = u, cred_password = p\<rparr>\<rparr>"

definition cfg_with_initial_subscribe :: "rstr \<Rightarrow> qos \<Rightarrow> 'h client_config \<Rightarrow> 'h client_config" where
  "cfg_with_initial_subscribe flt q cfg =
     cfg\<lparr>cfg_initial_subscriptions := cfg_initial_subscriptions cfg @ [\<lparr>tf_filter = flt, tf_qos = q\<rparr>]\<rparr>"

definition cfg_with_will :: "will_message \<Rightarrow> 'h client_config \<Rightarrow> 'h client_config" where
  "cfg_with_will w cfg = cfg\<lparr>cfg_will := Some w\<rparr>"

definition cfg_with_default_inbound :: "'h \<Rightarrow> 'h client_config \<Rightarrow> 'h client_config" where
  "cfg_with_default_inbound h cfg = cfg\<lparr>cfg_default_inbound := Some h\<rparr>"

section \<open>protocol/client.rs: the handshake\<close>

definition client_ping_interval :: "u16 \<Rightarrow> duration option" where
  "client_ping_interval ka = (if ka = 0 then None else Some (ucast ka * 1000))"

text \<open>
  Whether the timer arm of the \<^verbatim>\<open>select!\<close> can ever become ready: the arm waits on a future that never
  completes when there is no timer.
\<close>

definition tick_or_never :: "duration option \<Rightarrow> bool" where
  "tick_or_never timer \<longleftrightarrow> (case timer of Some _ \<Rightarrow> True | None \<Rightarrow> False)"

definition packet_of_will :: "will_message \<Rightarrow> will_packet" where
  "packet_of_will w =
     \<lparr>wp_topic = will_topic w, wp_payload = will_payload w, wp_qos = will_qos w, wp_retain = will_retain w\<rparr>"

definition build_connect :: "'h client_config \<Rightarrow> connect_packet" where
  "build_connect cfg =
     \<lparr>con_client_id = cfg_client_id cfg, con_clean_session = cfg_clean_session cfg,
      con_keep_alive = cfg_keep_alive_secs cfg,
      con_username = map_option cred_username (cfg_credentials cfg),
      con_password = map_option cred_password (cfg_credentials cfg),
      con_will = map_option packet_of_will (cfg_will cfg)\<rparr>"

definition client_initial_subscribe :: "'h client_config \<Rightarrow> nat \<Rightarrow> chans \<Rightarrow> unit result \<times> chans" where
  "client_initial_subscribe cfg r chs =
     (if cfg_initial_subscriptions cfg = [] then (Ok (), chs)
      else
        (let (pkt_id, s) = allocate_packet_id (ch_session (chs r));
             chs = chs(r := with_session (\<lambda>_. s) (chs r));
             subs = map (\<lambda>tf. \<lparr>ts_topic = tf_filter tf, ts_qos = tf_qos tf\<rparr>) (cfg_initial_subscriptions cfg)
         in on_channel r (send_packet (Subscribe \<lparr>sub_packet_id = pkt_id, sub_subscriptions = subs\<rparr>)) chs))"

text \<open>
  \<open>handle_client\<close> up to its loop: CONNECT, CONNACK within the configured time, the bind and the
  initial SUBSCRIBE. The reply read is the reply that has arrived on the reader when the time is over.
\<close>

definition client_open :: "'h client_config option \<Rightarrow> nat \<Rightarrow> chans \<Rightarrow> reader result \<times> chans" where
  "client_open config r chs =
     (case config of
        None \<Rightarrow> (Err (Configuration ''MqttClientConfig not registered in runtime statics''), chs)
      | Some cfg \<Rightarrow>
          (let (taken, chs) = on_channel r take_reader chs in
           case taken of
             None \<Rightarrow> (Err (Configuration ''reader already taken''), chs)
           | Some rd \<Rightarrow>
               (let (sent, chs) = on_channel r (send_packet (Connect (build_connect cfg))) chs in
                case sent of
                  Err e \<Rightarrow> (Err e, chs)
                | Panic \<Rightarrow> (Panic, chs)
                | Pending \<Rightarrow> (Pending, chs)
                | Ok _ \<Rightarrow>
                    (case read_packet rd (max_packet_size (cfg_safety cfg)) of
                       Ok (Connack ack, rd') \<Rightarrow>
                         if ack_return_code ack \<noteq> Accepted
                         then (Err (Protocol (ConnectionRefused (ack_return_code ack))), chs)
                         else
                           (let chs = chs(r := with_session (\<lambda>s. snd (bind_set
                                  \<lparr>bind_client_id = cfg_client_id cfg,
                                   bind_keep_alive = cfg_keep_alive_secs cfg\<rparr> s)) (chs r));
                                (subscribed, chs) = client_initial_subscribe cfg r chs
                            in (obind subscribed (\<lambda>_. Ok rd'), chs))
                     | Ok (_, rd') \<Rightarrow> (Err (Protocol ExpectedConnack), chs)
                     | Err e \<Rightarrow> (Err e, chs)
                     | Panic \<Rightarrow> (Panic, chs)
                     | Pending \<Rightarrow> (Err (Timeout TimeoutConnack), chs)))))"

section \<open>protocol/client.rs: dispatch\<close>

datatype ('n, 'h) job = RunEndpoint 'n "'n mqtt_context" | RunDefault 'h incoming_publish

text \<open>
  One task per endpoint the router finds for the topic, each with its own context; the fallback
  handler only when there is none.
\<close>

definition dispatch_incoming_to_endpoints_owned ::
  "(rstr \<Rightarrow> 'n list) \<Rightarrow> nat \<Rightarrow> incoming_publish \<Rightarrow> 'h option \<Rightarrow> ('n, 'h) job list" where
  "dispatch_incoming_to_endpoints_owned endpoints r inc default_handler =
     (let nodes = endpoints (inc_topic inc);
          jobs = map (\<lambda>node. RunEndpoint node
            (set_endpoint node (install_channel r (set_incoming inc context_default)))) nodes
      in if nodes = [] then (case default_handler of None \<Rightarrow> [] | Some h \<Rightarrow> [RunDefault h inc]) else jobs)"

definition dispatch_inbound_to_endpoints ::
  "(rstr \<Rightarrow> 'n list) \<Rightarrow> nat \<Rightarrow> publish_packet \<Rightarrow> 'h option \<Rightarrow> ('n, 'h) job list" where
  "dispatch_inbound_to_endpoints endpoints r p default_handler =
     (let nodes = endpoints (pub_topic p);
          jobs = map (\<lambda>node. RunEndpoint node
            (set_endpoint node (install_channel r (set_incoming (incoming_from_packet p) context_default)))) nodes
      in if nodes = []
         then (case default_handler of None \<Rightarrow> [] | Some h \<Rightarrow> [RunDefault h (incoming_from_packet p)])
         else jobs)"

fun dispatch_client_inbound ::
  "(rstr \<Rightarrow> 'n list) \<Rightarrow> nat \<Rightarrow> 'h client_config \<Rightarrow> packet \<Rightarrow> chans \<Rightarrow>
   bool result \<times> chans \<times> ('n, 'h) job list" where
  "dispatch_client_inbound endpoints r cfg (Publish p) chs =
     (let (acked, chs) = on_channel r (ack_inbound_publish_pre_chain p) chs in
      case acked of
        Ok _ \<Rightarrow>
          if pub_qos p = ExactlyOnce then (Ok False, chs, [])
          else (Ok False, chs, dispatch_inbound_to_endpoints endpoints r p (cfg_default_inbound cfg))
      | Err e \<Rightarrow> (Err e, chs, [])
      | Panic \<Rightarrow> (Panic, chs, [])
      | Pending \<Rightarrow> (Pending, chs, []))"
| "dispatch_client_inbound endpoints r cfg (Puback i) chs =
     (let chs = chs(r := with_session (wake_ack_waiter i KPuback) (chs r));
          chs = chs(r := with_session (clear_outbound_inflight i) (chs r))
      in (Ok False, chs, []))"
| "dispatch_client_inbound endpoints r cfg (Pubrec i) chs =
     (let chs = chs(r := with_session (wake_ack_waiter i KPubrec) (chs r));
          (sent, chs) = on_channel r (send_packet (Pubrel i)) chs
      in (obind sent (\<lambda>_. Ok False), chs, []))"
| "dispatch_client_inbound endpoints r cfg (Pubcomp i) chs =
     (let chs = chs(r := with_session (wake_ack_waiter i KPubcomp) (chs r));
          chs = chs(r := with_session (clear_outbound_inflight i) (chs r))
      in (Ok False, chs, []))"
| "dispatch_client_inbound endpoints r cfg (Pubrel i) chs =
     (let (stored, s) = take_qos2_publish i (ch_session (chs r));
          chs = chs(r := with_session (\<lambda>_. s) (chs r));
          jobs = (case stored of
                    None \<Rightarrow> []
                  | Some inc \<Rightarrow> dispatch_incoming_to_endpoints_owned endpoints r inc (cfg_default_inbound cfg));
          (sent, chs) = on_channel r (send_packet (Pubcomp i)) chs
      in (obind sent (\<lambda>_. Ok False), chs, jobs))"
| "dispatch_client_inbound endpoints r cfg (Suback s) chs =
     (let chs = chs(r := with_session (wake_suback_waiter (suback_packet_id s) (suback_return_codes s)) (chs r))
      in (Ok False, chs, []))"
| "dispatch_client_inbound endpoints r cfg (Unsuback i) chs =
     (let chs = chs(r := with_session (wake_unsuback_waiter i) (chs r)) in (Ok False, chs, []))"
| "dispatch_client_inbound endpoints r cfg Pingresp chs = (Ok False, chs, [])"
| "dispatch_client_inbound endpoints r cfg Disconnect chs = (Ok True, chs, [])"
| "dispatch_client_inbound endpoints r cfg p chs = (Ok False, chs, [])"

section \<open>protocol/client.rs: the loop\<close>

text \<open>
  Where the task of \<open>handle_client\<close> is after the handshake: at the head of the loop, past the check of
  the open flag, in the \<^verbatim>\<open>select!\<close>, past the loop, or returned.
\<close>

datatype client_phase = ClHead | ClChecked | ClSelect | ClLeft | ClFinished "unit result"

record ('n, 'h) client_conn =
  cc_channel :: nat
  cc_config :: "'h client_config"
  cc_ping :: "duration option"
  cc_reader :: reader
  cc_jobs :: "('n, 'h) job list"
  cc_phase :: client_phase

definition client_conn_start :: "nat \<Rightarrow> 'h client_config \<Rightarrow> reader \<Rightarrow> ('n, 'h) client_conn" where
  "client_conn_start r cfg rd =
     \<lparr>cc_channel = r, cc_config = cfg, cc_ping = client_ping_interval (cfg_keep_alive_secs cfg),
      cc_reader = rd, cc_jobs = [], cc_phase = ClHead\<rparr>"

definition cc_max_size :: "('n, 'h) client_conn \<Rightarrow> usize" where
  "cc_max_size c = max_packet_size (cfg_safety (cc_config c))"

text \<open>The receive arm, on a read that is over.\<close>

definition client_round ::
  "(rstr \<Rightarrow> 'n list) \<Rightarrow> (packet \<times> reader) result \<Rightarrow> ('n, 'h) client_conn \<Rightarrow> chans \<Rightarrow>
   ('n, 'h) client_conn \<times> chans" where
  "client_round endpoints inbound c chs =
     (case inbound of
        Ok (p, rd) \<Rightarrow>
          (let (res, chs, jobs) = dispatch_client_inbound endpoints (cc_channel c) (cc_config c) p chs;
               c = c\<lparr>cc_reader := rd, cc_jobs := cc_jobs c @ jobs\<rparr>
           in case res of
                Ok stop \<Rightarrow> (c\<lparr>cc_phase := (if stop then ClLeft else ClHead)\<rparr>, chs)
              | Err e \<Rightarrow> (c\<lparr>cc_phase := ClFinished (Err e)\<rparr>, chs)
              | Panic \<Rightarrow> (c\<lparr>cc_phase := ClFinished Panic\<rparr>, chs)
              | Pending \<Rightarrow> (c, chs))
      | Err e \<Rightarrow>
          (case e of
             Io _ \<Rightarrow> (c\<lparr>cc_phase := ClLeft\<rparr>, chs)
           | _ \<Rightarrow> (c\<lparr>cc_phase := ClFinished (Err e)\<rparr>, chs))
      | Panic \<Rightarrow> (c\<lparr>cc_phase := ClFinished Panic\<rparr>, chs)
      | Pending \<Rightarrow> (c, chs))"

text \<open>
  The timer arm. When it wins, the read of this round is dropped together with the bytes it has already
  taken off the reader: the first \<open>k\<close> bytes, when those do not make a packet yet.
\<close>

definition ping_round :: "nat \<Rightarrow> ('n, 'h) client_conn \<Rightarrow> chans \<Rightarrow> ('n, 'h) client_conn \<times> chans" where
  "ping_round k c chs =
     (let (sent, chs) = on_channel (cc_channel c) (send_packet Pingreq) chs;
          c = c\<lparr>cc_reader := (cc_reader c)\<lparr>rd_bytes := drop k (rd_bytes (cc_reader c))\<rparr>\<rparr>
      in case sent of
           Err _ \<Rightarrow> (c\<lparr>cc_phase := ClLeft\<rparr>, chs)
         | _ \<Rightarrow> (c\<lparr>cc_phase := ClHead\<rparr>, chs))"

definition read_in_progress :: "nat \<Rightarrow> ('n, 'h) client_conn \<Rightarrow> bool" where
  "read_in_progress k c \<longleftrightarrow>
     read_packet \<lparr>rd_bytes = take k (rd_bytes (cc_reader c)), rd_end = Stalled\<rparr> (cc_max_size c) = Pending"

inductive client_step ::
  "(rstr \<Rightarrow> 'n list) \<Rightarrow> ('n, 'h) client_conn \<times> chans \<Rightarrow> ('n, 'h) client_conn \<times> chans \<Rightarrow> bool"
  for endpoints :: "rstr \<Rightarrow> 'n list" where
  cl_closed:
    "cc_phase c = ClHead \<Longrightarrow> \<not> is_open (chs (cc_channel c)) \<Longrightarrow>
     client_step endpoints (c, chs) (c\<lparr>cc_phase := ClLeft\<rparr>, chs)"
| cl_check:
    "cc_phase c = ClHead \<Longrightarrow> is_open (chs (cc_channel c)) \<Longrightarrow>
     client_step endpoints (c, chs) (c\<lparr>cc_phase := ClChecked\<rparr>, chs)"
| cl_select:
    "cc_phase c = ClChecked \<Longrightarrow>
     client_step endpoints (c, chs) (c\<lparr>cc_phase := ClSelect\<rparr>, set_loop (Some False) (cc_channel c) chs)"
| cl_read:
    "cc_phase c = ClSelect \<Longrightarrow> read_packet (cc_reader c) (cc_max_size c) = inbound \<Longrightarrow> inbound \<noteq> Pending \<Longrightarrow>
     client_step endpoints (c, chs) (client_round endpoints inbound c (set_loop None (cc_channel c) chs))"
| cl_tick:
    "cc_phase c = ClSelect \<Longrightarrow> tick_or_never (cc_ping c) \<Longrightarrow> k \<le> length (rd_bytes (cc_reader c)) \<Longrightarrow>
     read_in_progress k c \<Longrightarrow>
     client_step endpoints (c, chs) (ping_round k c (set_loop None (cc_channel c) chs))"
| cl_notified:
    "cc_phase c = ClSelect \<Longrightarrow> ch_loop (chs (cc_channel c)) = Some True \<Longrightarrow>
     client_step endpoints (c, chs) (c\<lparr>cc_phase := ClLeft\<rparr>, set_loop None (cc_channel c) chs)"
| cl_finish:
    "cc_phase c = ClLeft \<Longrightarrow>
     client_step endpoints (c, chs)
       (c\<lparr>cc_phase := ClFinished (Ok ())\<rparr>, snd (on_channel (cc_channel c) (send_packet Disconnect) chs))"
| cl_arrive:
    "rd_end (cc_reader c) = Stalled \<Longrightarrow>
     client_step endpoints (c, chs)
       (c\<lparr>cc_reader := \<lparr>rd_bytes = rd_bytes (cc_reader c) @ arrived, rd_end = e\<rparr>\<rparr>, chs)"
| cl_others:
    "chan_step (chs x) l ch' \<Longrightarrow> client_step endpoints (c, chs) (c, chs(x := ch'))"

inductive_cases client_stepE: "client_step endpoints (c, chs) s"

abbreviation client_run ::
  "(rstr \<Rightarrow> 'n list) \<Rightarrow> ('n, 'h) client_conn \<times> chans \<Rightarrow> ('n, 'h) client_conn \<times> chans \<Rightarrow> bool" where
  "client_run endpoints \<equiv> rtranclp (client_step endpoints)"

end
