(* ===== verification/Mqtt_Client_Properties.thy ===== *)
theory Mqtt_Client_Properties
  imports Mqtt_Client Mqtt_Server_Properties
begin

text \<open>
  The client side is correct: what the handshake sends and which replies it accepts, that a QoS 2
  publish reaches the endpoints once, how the loop can end, and what a ping in the middle of a frame
  does.
\<close>

section \<open>Lemmas\<close>

lemma dispatch_client_result:
  "fst (dispatch_client_inbound endpoints r cfg p chs) \<in> range Ok \<union> {Err ChannelClosed}"
  by (cases p)
    (auto simp: Let_def case_prod_beta send_packet_def cmd_send_def ack_inbound_publish_pre_chain_def
      split: outcome.splits qos.splits option.splits if_splits)

lemma client_round_channel [simp]: "cc_channel (fst (client_round endpoints inbound c chs)) = cc_channel c"
  by (auto simp: client_round_def Let_def case_prod_beta split: outcome.splits mqtt_error.splits)

lemma client_round_finished:
  assumes "client_round endpoints inbound c chs = (c', chs')" and "inbound \<noteq> Panic"
    and "cc_phase c' = ClFinished res" and "\<not> (\<exists>res. cc_phase c = ClFinished res)"
  shows "\<exists>e. res = Err e \<and> (e = ChannelClosed \<or> inbound = Err e \<and> (\<forall>k. e \<noteq> Io k))"
proof (cases inbound)
  case (Ok x)
  then show ?thesis
    using assms dispatch_client_result [of endpoints "cc_channel c" "cc_config c" "fst x" chs]
    by (cases x) (auto simp: client_round_def Let_def case_prod_beta split: if_splits)
qed (use assms in \<open>auto simp: client_round_def split: mqtt_error.splits\<close>)

lemma ping_round_channel [simp]:
  "cc_channel (fst (ping_round k c chs)) = cc_channel c" "\<not> (\<exists>res. cc_phase (fst (ping_round k c chs)) = ClFinished res)"
  by (auto simp: ping_round_def Let_def case_prod_beta split: outcome.splits)

interpretation client_task: step_invariant "client_step endpoints" "\<lambda>s. cc_channel (fst s) = r"
  for endpoints r
  by unfold_locales (auto elim!: client_step.cases)

lemma dispatch_client_keeps_ok:
  assumes "chans_ok chs"
  shows "chans_ok (fst (snd (dispatch_client_inbound endpoints r cfg p chs)))"
proof (cases p)
  case (Pubrel i)
  have "session_ok (snd (take_qos2_publish i (ch_session (chs r))))"
    using chans_ok_at [OF assms, of r] by (simp add: channel_ok_def session_ok_take_qos2)
  then have "chans_ok (chs(r := with_session (\<lambda>_. snd (take_qos2_publish i (ch_session (chs r)))) (chs r)))"
    using assms by (intro chans_ok_with_session)
  with chans_ok_send [OF this, of r "Pubcomp i"] show ?thesis
    by (simp add: Pubrel case_prod_beta Let_def)
qed (use assms in \<open>auto simp: case_prod_beta Let_def inv_intros chans_ok_at session_ok_wakes session_ok_tables
      intro!: chans_ok_with_session [simplified] chans_ok_upd channel_ok_with_session channel_ok_ack_pre_chain
        channel_ok_send_packet split: outcome.splits if_splits\<close>)

lemma client_round_keeps_ok: "chans_ok chs \<Longrightarrow> chans_ok (snd (client_round endpoints inbound c chs))"
  using dispatch_client_keeps_ok [of chs endpoints "cc_channel c" "cc_config c"]
  by (auto simp: client_round_def Let_def case_prod_beta split: outcome.splits mqtt_error.splits)

lemma ping_round_keeps_ok: "chans_ok chs \<Longrightarrow> chans_ok (snd (ping_round k c chs))"
  by (auto simp: ping_round_def Let_def case_prod_beta chans_ok_send split: outcome.splits)

interpretation client_channels: step_invariant "client_step endpoints" "\<lambda>s. chans_ok (snd s)"
  for endpoints
proof (unfold_locales, goal_cases)
  case (1 s s')
  from 1(1) show ?case
  proof (cases rule: client_step.cases)
    case (cl_others chs x l ch' c)
    then show ?thesis using 1(2) channel_ok_step [of "chs x" l ch'] by (auto simp: chans_ok_upd chans_ok_at)
  qed (use 1(2) in \<open>auto simp: client_round_keeps_ok ping_round_keeps_ok chans_ok_send\<close>)
qed

lemma allocate_keeps_bind [simp]: "bind (snd (allocate_packet_id s)) = bind s"
  by (simp add: allocate_packet_id_def Let_def)

lemma client_initial_subscribe_queues:
  assumes "ch_actor (chs r) \<noteq> Stopped" and "client_initial_subscribe cfg r chs = (res, chs')"
    and "subs = map (\<lambda>tf. \<lparr>ts_topic = tf_filter tf, ts_qos = tf_qos tf\<rparr>) (cfg_initial_subscriptions cfg)"
  shows "res = Ok ()" and "x \<noteq> r \<Longrightarrow> chs' x = chs x" and "ch_reader (chs' r) = ch_reader (chs r)"
    and "bind (ch_session (chs' r)) = bind (ch_session (chs r))"
    and "if subs = [] then ch_cmds (chs' r) = ch_cmds (chs r)
      else \<exists>i. i \<noteq> 0 \<and> ch_cmds (chs' r) =
        ch_cmds (chs r) @ [CmdPacket (Subscribe \<lparr>sub_packet_id = i, sub_subscriptions = subs\<rparr>)]"
  using assms allocate_packet_id_nonzero [of "ch_session (chs r)"]
  by (auto simp: client_initial_subscribe_def Let_def case_prod_beta send_packet_live on_channel_def split: if_splits)

text \<open>The handshake up to the reply.\<close>

lemma client_open_reply:
  assumes "ch_reader (chs r) = Some rd" and "ch_actor (chs r) \<noteq> Stopped"
    and "chs1 = chs(r := (chs r)\<lparr>ch_reader := None,
      ch_cmds := ch_cmds (chs r) @ [CmdPacket (Connect (build_connect cfg))]\<rparr>)"
  shows "client_open (Some cfg) r chs =
    (case read_packet rd (max_packet_size (cfg_safety cfg)) of
       Ok (Connack ack, rd') \<Rightarrow>
         if ack_return_code ack \<noteq> Accepted then (Err (Protocol (ConnectionRefused (ack_return_code ack))), chs1)
         else
           (let chs2 = chs1(r := with_session (\<lambda>s. snd (bind_set \<lparr>bind_client_id = cfg_client_id cfg,
                  bind_keep_alive = cfg_keep_alive_secs cfg\<rparr> s)) (chs1 r));
                (subscribed, chs3) = client_initial_subscribe cfg r chs2
            in (obind subscribed (\<lambda>_. Ok rd'), chs3))
     | Ok (_, rd') \<Rightarrow> (Err (Protocol ExpectedConnack), chs1)
     | Err e \<Rightarrow> (Err e, chs1)
     | Panic \<Rightarrow> (Panic, chs1)
     | Pending \<Rightarrow> (Err (Timeout TimeoutConnack), chs1))"
proof -
  have "on_channel r take_reader chs = (Some rd, chs(r := (chs r)\<lparr>ch_reader := None\<rparr>))"
    using assms(1) by (simp add: on_channel_def take_reader_def)
  moreover have "on_channel r (send_packet (Connect (build_connect cfg))) (chs(r := (chs r)\<lparr>ch_reader := None\<rparr>)) =
      (Ok (), chs1)"
    using assms(2,3) by (simp add: on_channel_def send_packet_live)
  ultimately show ?thesis unfolding client_open_def by (simp only: option.case prod.case Let_def outcome.case)
qed

text \<open>What the two dispatch variants spawn, and that they spawn the same.\<close>

lemma spawned_jobs:
  "RunEndpoint node ctx \<in> set (dispatch_inbound_to_endpoints endpoints r p h) \<Longrightarrow>
    node \<in> set (endpoints (pub_topic p)) \<and> ctx_topic ctx = Some (pub_topic p) \<and>
    ctx_payload ctx = Some (pub_payload p) \<and> ctx_endpoint ctx = Some node \<and> ctx_channel ctx = Some r"
  "length (dispatch_inbound_to_endpoints endpoints r p h) =
    (if endpoints (pub_topic p) \<noteq> [] then length (endpoints (pub_topic p)) else if h = None then 0 else 1)"
  by (auto simp: dispatch_inbound_to_endpoints_def Let_def ctx_topic_def ctx_payload_def set_endpoint_def
      install_channel_def set_incoming_def incoming_from_packet_def split: option.splits if_splits)

lemma dispatch_variants_agree:
  "dispatch_incoming_to_endpoints_owned endpoints r (incoming_from_packet p) h =
    dispatch_inbound_to_endpoints endpoints r p h"
  by (simp add: dispatch_incoming_to_endpoints_owned_def dispatch_inbound_to_endpoints_def Let_def)
    (simp add: incoming_from_packet_def)

lemmas cl_snoc = rtranclp.rtrancl_into_rtrancl [where r = "client_step endpoints" for endpoints]

section \<open>Properties\<close>

text \<open>
  The handshake. On a fresh channel that can be written to, the client queues exactly the CONNECT of
  its configuration and then judges the first packet it reads: a CONNACK with the accepting code
  binds the session and queues, when initial subscriptions are configured, one SUBSCRIBE with all of
  them under a non-zero id; a refusing CONNACK, any other packet, a read error and silence each end
  the handshake with their own error and nothing more queued.
\<close>

theorem client_open_decides:
  assumes "ch_reader (chs r) = Some rd" and "ch_actor (chs r) \<noteq> Stopped" and "bind (ch_session (chs r)) = None"
    and "client_open (Some cfg) r chs = (res, chs')"
  shows "let out = ch_cmds (chs r) @ [CmdPacket (Connect (build_connect cfg))];
           subs = map (\<lambda>tf. \<lparr>ts_topic = tf_filter tf, ts_qos = tf_qos tf\<rparr>) (cfg_initial_subscriptions cfg);
           failed = (\<lambda>e. res = Err e \<and> ch_cmds (chs' r) = out)
    in ch_reader (chs' r) = None \<and> (\<forall>x. x \<noteq> r \<longrightarrow> chs' x = chs x) \<and>
      (case read_packet rd (max_packet_size (cfg_safety cfg)) of
         Ok (Connack ack, rd') \<Rightarrow>
           if ack_return_code ack \<noteq> Accepted then failed (Protocol (ConnectionRefused (ack_return_code ack)))
           else res = Ok rd' \<and>
             bind (ch_session (chs' r)) =
               Some \<lparr>bind_client_id = cfg_client_id cfg, bind_keep_alive = cfg_keep_alive_secs cfg\<rparr> \<and>
             (if subs = [] then ch_cmds (chs' r) = out
              else \<exists>i. i \<noteq> 0 \<and> ch_cmds (chs' r) =
                out @ [CmdPacket (Subscribe \<lparr>sub_packet_id = i, sub_subscriptions = subs\<rparr>)])
       | Ok _ \<Rightarrow> failed (Protocol ExpectedConnack)
       | Err e \<Rightarrow> failed e
       | Pending \<Rightarrow> failed (Timeout TimeoutConnack)
       | Panic \<Rightarrow> False)"
proof -
  let ?info = "\<lparr>bind_client_id = cfg_client_id cfg, bind_keep_alive = cfg_keep_alive_secs cfg\<rparr>"
  define chs1 where "chs1 = chs(r := (chs r)\<lparr>ch_reader := None,
      ch_cmds := ch_cmds (chs r) @ [CmdPacket (Connect (build_connect cfg))]\<rparr>)"
  define chs2 where "chs2 = chs1(r := with_session (\<lambda>s. snd (bind_set ?info s)) (chs1 r))"
  obtain subscribed chs3 where sub: "client_initial_subscribe cfg r chs2 = (subscribed, chs3)" by fastforce
  have live: "ch_actor (chs2 r) \<noteq> Stopped" using assms(2) by (simp add: chs2_def chs1_def)
  have chs2: "bind (ch_session (chs2 r)) = Some ?info" "ch_reader (chs2 r) = None" "x \<noteq> r \<Longrightarrow> chs2 x = chs x"
    "ch_cmds (chs2 r) = ch_cmds (chs r) @ [CmdPacket (Connect (build_connect cfg))]" for x
    using assms(3) by (simp_all add: chs2_def chs1_def bind_set_def)
  note opened = client_open_reply [OF assms(1,2) chs1_def, unfolded assms(4)]
  note queued = client_initial_subscribe_queues [OF live sub refl, unfolded chs2]
  show ?thesis
  proof (cases "read_packet rd (max_packet_size (cfg_safety cfg))")
    case (Ok x)
    then show ?thesis
    proof (cases "\<exists>ack rd'. x = (Connack ack, rd') \<and> ack_return_code ack = Accepted")
      case True
      with Ok opened sub queued chs2(3) show ?thesis by (auto simp: Let_def simp flip: chs2_def)
    next
      case False
      with Ok opened show ?thesis
        by (cases x; cases "fst x") (auto simp: Let_def chs1_def)
    qed
  qed (use opened read_packet_never_panics [of rd "max_packet_size (cfg_safety cfg)"] in
      \<open>auto simp: Let_def chs1_def\<close>)
qed

definition sample_client :: "unit client_config" where
  "sample_client = cfg_with_initial_subscribe ''a/#'' AtLeastOnce (client_config_new ''d'')"

definition connack_reader :: reader where
  "connack_reader = \<lparr>rd_bytes = [0x20, 2, 0, 0], rd_end = Stalled\<rparr>"

lemma connack_read:
  "read_packet connack_reader (max_packet_size (cfg_safety sample_client)) =
    Ok (connack False Accepted, \<lparr>rd_bytes = [], rd_end = Stalled\<rparr>)"
proof -
  have "wire_length (connack False Accepted) \<le> max_packet_size (cfg_safety sample_client)"
    by (simp add: wire_length_def connack_def sample_client_def cfg_with_initial_subscribe_def client_config_new_def
        max_packet_size_def safety_new_def DEFAULT_MAX_PACKET_SIZE_def)
  moreover have "encode_packet (connack False Accepted) = Ok [0x20, 2, 0, 0]"
    by (simp add: connack_def encode_connack_def type_nibble_def)
  ultimately show ?thesis
    using read_packet_encoded [of "connack False Accepted" _ "[0x20, 2, 0, 0]" "[]" Stalled]
    by (simp add: connack_reader_def connack_def)
qed

definition dialled_chans :: chans where
  "dialled_chans = fresh_chans(0 := (fresh_chans 0)\<lparr>ch_reader := Some connack_reader\<rparr>)"

theorem client_open_decides_witness:
  "\<exists>rd chs' i. client_open (Some sample_client) 0 dialled_chans = (Ok rd, chs') \<and> i \<noteq> 0 \<and>
    ch_cmds (chs' 0) = [CmdPacket (Connect (build_connect sample_client)),
      CmdPacket (Subscribe \<lparr>sub_packet_id = i, sub_subscriptions = [\<lparr>ts_topic = ''a/#'', ts_qos = AtLeastOnce\<rparr>]\<rparr>)]"
proof -
  obtain res chs' where opened: "client_open (Some sample_client) 0 dialled_chans = (res, chs')" by fastforce
  have "ch_reader (dialled_chans 0) = Some connack_reader" "ch_actor (dialled_chans 0) \<noteq> Stopped"
    "bind (ch_session (dialled_chans 0)) = None" "ch_cmds (dialled_chans 0) = []"
    by (simp_all add: dialled_chans_def session_new_def)
  moreover have "cfg_initial_subscriptions sample_client = [\<lparr>tf_filter = ''a/#'', tf_qos = AtLeastOnce\<rparr>]"
    by (simp add: sample_client_def cfg_with_initial_subscribe_def client_config_new_def)
  ultimately show ?thesis
    using client_open_decides [OF _ _ _ opened, of connack_reader] opened
    by (auto simp: connack_read connack_def Let_def)
qed

text \<open>
  C19: a QoS 2 publish reaches the client's endpoints once. PUBLISH, its retransmission, PUBREL and a second
  PUBREL are answered PUBREC, PUBREC, PUBCOMP, PUBCOMP; only the first PUBREL spawns anything, and it
  spawns the tasks an immediate dispatch of the latest copy would have spawned: one per endpoint found
  for the topic, each seeing the topic and the payload of the publish, or the fallback handler when
  there is none.
\<close>

theorem client_qos2_dispatched_once:
  assumes "pub_qos p = ExactlyOnce" and "pub_packet_id p = Some i" and "ch_actor (chs r) \<noteq> Stopped"
  shows "let D = dispatch_client_inbound endpoints r cfg;
           (r1, chs1, j1) = D (Publish p) chs;
           (r2, chs2, j2) = D (Publish (p\<lparr>pub_dup := True\<rparr>)) chs1;
           (r3, chs3, j3) = D (Pubrel i) chs2;
           (r4, chs4, j4) = D (Pubrel i) chs3
    in [r1, r2, r3, r4] = replicate 4 (Ok False) \<and> j1 @ j2 @ j4 = [] \<and>
       j3 = dispatch_inbound_to_endpoints endpoints r (p\<lparr>pub_dup := True\<rparr>) (cfg_default_inbound cfg) \<and>
       (\<forall>node ctx. RunEndpoint node ctx \<in> set j3 \<longrightarrow> node \<in> set (endpoints (pub_topic p)) \<and>
          ctx_topic ctx = Some (pub_topic p) \<and> ctx_payload ctx = Some (pub_payload p) \<and>
          ctx_endpoint ctx = Some node \<and> ctx_channel ctx = Some r) \<and>
       length j3 = (if endpoints (pub_topic p) \<noteq> [] then length (endpoints (pub_topic p))
         else if cfg_default_inbound cfg = None then 0 else 1) \<and>
       ch_cmds (chs4 r) = ch_cmds (chs r) @ map CmdPacket [Pubrec i, Pubrec i, Pubcomp i, Pubcomp i] \<and>
       (\<forall>x. x \<noteq> r \<longrightarrow> chs4 x = chs x)"
proof -
  let ?p = "p\<lparr>pub_dup := True\<rparr>" and ?h = "cfg_default_inbound cfg"
  have "(\<forall>node ctx. RunEndpoint node ctx \<in> set (dispatch_inbound_to_endpoints endpoints r ?p ?h) \<longrightarrow>
      node \<in> set (endpoints (pub_topic p)) \<and> ctx_topic ctx = Some (pub_topic p) \<and>
      ctx_payload ctx = Some (pub_payload p) \<and> ctx_endpoint ctx = Some node \<and> ctx_channel ctx = Some r)"
    using spawned_jobs(1) [of _ _ endpoints r ?p ?h] by simp
  moreover have "length (dispatch_inbound_to_endpoints endpoints r ?p ?h) =
      (if endpoints (pub_topic p) \<noteq> [] then length (endpoints (pub_topic p)) else if ?h = None then 0 else 1)"
    using spawned_jobs(2) [of endpoints r ?p ?h] by simp
  ultimately show ?thesis
    using assms
    by (simp only: Let_def) (simp add: on_channel_def ack_inbound_publish_pre_chain_def send_packet_live with_session_def
        stash_qos2_publish_def take_qos2_publish_def dispatch_variants_agree numeral_eq_Suc)
qed

theorem client_qos2_dispatched_once_witness:
  "let p = \<lparr>pub_topic = ''t'', pub_payload = [7], pub_dup = False, pub_qos = ExactlyOnce, pub_retain = False,
         pub_packet_id = Some 3\<rparr>;
       D = dispatch_client_inbound segments_of 0 sample_client;
       (r1, chs1, j1) = D (Publish p) fresh_chans;
       (r2, chs2, j2) = D (Publish (p\<lparr>pub_dup := True\<rparr>)) chs1;
       (r3, chs3, j3) = D (Pubrel 3) chs2;
       (r4, chs4, j4) = D (Pubrel 3) chs3
   in length j3 = 1 \<and> j4 = []"
proof -
  have "segments_of ''t'' = [''t'']" by (simp add: segments_of_def)
  then have "length (dispatch_inbound_to_endpoints segments_of 0 \<lparr>pub_topic = ''t'', pub_payload = [7], pub_dup = True,
      pub_qos = ExactlyOnce, pub_retain = False, pub_packet_id = Some 3\<rparr> (cfg_default_inbound sample_client)) = 1"
    by (simp add: spawned_jobs(2))
  then show ?thesis
    using client_qos2_dispatched_once [of "\<lparr>pub_topic = ''t'', pub_payload = [7], pub_dup = False, pub_qos = ExactlyOnce,
        pub_retain = False, pub_packet_id = Some 3\<rparr>" 3 fresh_chans 0 segments_of sample_client]
    by (simp add: Let_def case_prod_beta del: dispatch_client_inbound.simps)
qed



text \<open>
  C38: a ping in the middle of a frame tears it. The read and the ping timer are arms of one \<^verbatim>\<open>select!\<close>,
  and dropping the read drops the bytes it has taken: when the timer fires while a frame has arrived
  in part, the loop comes back to its \<^verbatim>\<open>select!\<close> with the rest of that frame at the front of the
  reader, and the packet, which is whole on the wire, is never dispatched.
\<close>

theorem ping_tick_tears_frame:
  assumes "wf_packet p" and "wire_length p \<le> cc_max_size c" and "encode_packet p = Ok (pre @ post)"
    and "post \<noteq> []" and "cc_reader c = \<lparr>rd_bytes = pre, rd_end = Stalled\<rparr>"
    and "cc_phase c = ClSelect" and "cc_ping c \<noteq> None"
    and "is_open (chs (cc_channel c))" and "ch_actor (chs (cc_channel c)) \<noteq> Stopped"
  shows "read_packet \<lparr>rd_bytes = pre @ post @ rest, rd_end = Stalled\<rparr> (cc_max_size c) =
      Ok (p, \<lparr>rd_bytes = rest, rd_end = Stalled\<rparr>) \<and>
    (\<exists>c' chs'. client_run endpoints (c, chs) (c', chs') \<and> cc_phase c' = ClSelect \<and>
      cc_reader c' = \<lparr>rd_bytes = post @ rest, rd_end = Stalled\<rparr> \<and> cc_jobs c' = cc_jobs c \<and>
      ch_session (chs' (cc_channel c)) = ch_session (chs (cc_channel c)) \<and>
      ch_cmds (chs' (cc_channel c)) = ch_cmds (chs (cc_channel c)) @ [CmdPacket Pingreq])"
proof (rule conjI)
  show "read_packet \<lparr>rd_bytes = pre @ post @ rest, rd_end = Stalled\<rparr> (cc_max_size c) =
      Ok (p, \<lparr>rd_bytes = rest, rd_end = Stalled\<rparr>)"
    using read_packet_encoded [OF assms(1-3), of rest Stalled] by simp
  let ?r = "cc_channel c" and ?rd = "\<lparr>rd_bytes = post @ rest, rd_end = Stalled\<rparr>"
  let ?ch = "(chs ?r)\<lparr>ch_loop := None, ch_cmds := ch_cmds (chs ?r) @ [CmdPacket Pingreq]\<rparr>"
  let ?c1 = "c\<lparr>cc_reader := \<lparr>rd_bytes = [], rd_end = Stalled\<rparr>, cc_phase := ClHead\<rparr>"
  let ?c2 = "c\<lparr>cc_phase := ClHead, cc_reader := ?rd\<rparr>"
  have "read_in_progress (length pre) c"
    using read_packet_partial [OF assms(1-3), of "length pre"] assms(4,5) by (simp add: read_in_progress_def)
  then have tick: "client_step endpoints (c, chs) (ping_round (length pre) c (set_loop None ?r chs))"
    using assms(5-7) by (intro cl_tick) (auto simp: tick_or_never_def)
  have round: "ping_round (length pre) c (set_loop None ?r chs) = (?c1, chs(?r := ?ch))"
    using assms(5,9) by (simp add: ping_round_def on_channel_def set_loop_def send_packet_live)
  have arrive: "client_step endpoints (?c1, chs(?r := ?ch)) (?c2, chs(?r := ?ch))"
    using cl_arrive [of ?c1 endpoints "chs(?r := ?ch)" "post @ rest" Stalled] by simp
  have check: "client_step endpoints (?c2, chs(?r := ?ch)) (?c2\<lparr>cc_phase := ClChecked\<rparr>, chs(?r := ?ch))"
    by (rule cl_check) (use assms(8) in \<open>simp_all add: is_open_def\<close>)
  have select: "client_step endpoints (?c2\<lparr>cc_phase := ClChecked\<rparr>, chs(?r := ?ch))
      (?c2\<lparr>cc_phase := ClChecked, cc_phase := ClSelect\<rparr>, set_loop (Some False) ?r (chs(?r := ?ch)))"
    using cl_select [of "?c2\<lparr>cc_phase := ClChecked\<rparr>" endpoints "chs(?r := ?ch)"] by simp
  have "client_run endpoints (c, chs)
      (?c2\<lparr>cc_phase := ClChecked, cc_phase := ClSelect\<rparr>, set_loop (Some False) ?r (chs(?r := ?ch)))"
    by (rule cl_snoc [OF cl_snoc [OF cl_snoc [OF cl_snoc [OF rtranclp.rtrancl_refl tick [unfolded round]] arrive] check] select])
  then show "\<exists>c' chs'. client_run endpoints (c, chs) (c', chs') \<and> cc_phase c' = ClSelect \<and>
      cc_reader c' = ?rd \<and> cc_jobs c' = cc_jobs c \<and> ch_session (chs' ?r) = ch_session (chs ?r) \<and>
      ch_cmds (chs' ?r) = ch_cmds (chs ?r) @ [CmdPacket Pingreq]"
    by (intro exI conjI) (assumption, simp_all add: set_loop_def)
qed

theorem ping_tick_tears_frame_witness:
  "\<exists>c' chs'. client_run segments_of ((client_conn_start 0 sample_client \<lparr>rd_bytes = [0xD0], rd_end = Stalled\<rparr>
      :: (rstr, unit) client_conn)\<lparr>cc_phase := ClSelect\<rparr>, fresh_chans) (c', chs') \<and> cc_phase c' = ClSelect \<and>
    cc_reader c' = \<lparr>rd_bytes = [0], rd_end = Stalled\<rparr> \<and>
    read_packet (cc_reader c') (cc_max_size c') = Err (Codec (InvalidPacketType 0))"
proof -
  let ?c = "(client_conn_start 0 sample_client \<lparr>rd_bytes = [0xD0], rd_end = Stalled\<rparr>
      :: (rstr, unit) client_conn)\<lparr>cc_phase := ClSelect\<rparr>"
  have "encode_packet Pingresp = Ok ([0xD0] @ [0])" by (simp add: type_nibble_def)
  moreover have "cc_ping ?c \<noteq> None"
    by (simp add: client_conn_start_def client_ping_interval_def sample_client_def cfg_with_initial_subscribe_def
        client_config_new_def)
  moreover have "is_open (fresh_chans (cc_channel ?c))"
    by (simp add: is_open_def fresh_chans_def channel_new_def next_connection_id_def)
  ultimately obtain c' chs' where run: "client_run segments_of (?c, fresh_chans) (c', chs')" "cc_phase c' = ClSelect"
    "cc_reader c' = \<lparr>rd_bytes = [0], rd_end = Stalled\<rparr>"
    using ping_tick_tears_frame [of Pingresp ?c "[0xD0]" "[0]" fresh_chans "[]" segments_of]
    by (auto simp: wire_length_def client_conn_start_def)
  moreover have "read_packet \<lparr>rd_bytes = [0], rd_end = Stalled\<rparr> m = Err (Codec (InvalidPacketType 0))" for m
    by (simp add: read_packet_def read_exact_1 Let_def packet_type_try_from_def)
  ultimately show ?thesis by metis
qed

end
