(* ===== verification/Mqtt_Handle.thy ===== *)
theory Mqtt_Handle
  imports Mqtt_Server_Properties Mqtt_Client_Properties
begin

text \<open>
  A connection from its first byte to its last: \<open>handle\<close> of \<^verbatim>\<open>src/src/protocol/mod.rs\<close>, which runs the
  handler of the channel's role and closes the channel behind it, with the handlers of
  \<^verbatim>\<open>src/src/protocol/server.rs\<close> and \<^verbatim>\<open>src/src/protocol/client.rs\<close> from their opening to their return.
\<close>

section \<open>The whole of a handler\<close>

text \<open>
  A complete run of \<open>handle\<close> on channel \<open>r\<close>, from the broker in the runtime's statics and the channels
  before it to those after it, with its result and, on a server, the admission if there was one. A
  handler that fails while it opens returns at once; otherwise its task and everybody else move until it
  returns.
\<close>

inductive handle_run ::
  "('n, 'k) endpoint_code \<Rightarrow> 'h client_config option \<Rightarrow> nat \<Rightarrow> broker option \<times> chans \<Rightarrow> admitted option \<Rightarrow>
   unit result \<Rightarrow> broker option \<times> chans \<Rightarrow> bool"
  for code :: "('n, 'k) endpoint_code" and config :: "'h client_config option" and r :: nat where
  server_fails:
    "ch_role (chs r) = ServerRole \<Longrightarrow> order_ok ord \<Longrightarrow> server_open ord r bopt chs = (res, bopt', chs1) \<Longrightarrow>
     \<not> (\<exists>x. res = Ok x) \<Longrightarrow> handle_end r (obind res (\<lambda>_. Ok ())) chs1 = (out, chs2) \<Longrightarrow>
     handle_run code config r (bopt, chs) None out (bopt', chs2)"
| server_serves:
    "ch_role (chs r) = ServerRole \<Longrightarrow> order_ok ord \<Longrightarrow>
     server_open ord r bopt chs = (Ok (a, rd), Some b1, chs1) \<Longrightarrow>
     server_run code (server_conn_start r b1 a rd, b1, chs1) (c, b2, chs2) \<Longrightarrow>
     server_step code (c, b2, chs2) (c', b3, chs3) \<Longrightarrow>
     \<not> (\<exists>res. cn_phase c = Finished res) \<Longrightarrow> cn_phase c' = Finished res \<Longrightarrow>
     handle_end r res chs3 = (out, chs4) \<Longrightarrow>
     handle_run code config r (bopt, chs) (Some a) out (Some b3, chs4)"
| client_fails:
    "ch_role (chs r) = ClientRole \<Longrightarrow> client_open config r chs = (res, chs1) \<Longrightarrow> \<not> (\<exists>x. res = Ok x) \<Longrightarrow>
     handle_end r (obind res (\<lambda>_. Ok ())) chs1 = (out, chs2) \<Longrightarrow>
     handle_run code config r (bopt, chs) None out (bopt, chs2)"
| client_serves:
    "ch_role (chs r) = ClientRole \<Longrightarrow> config = Some cfg \<Longrightarrow> client_open config r chs = (Ok rd, chs1) \<Longrightarrow>
     client_run (ep_nodes code) (client_conn_start r cfg rd, chs1) (c, chs2) \<Longrightarrow>
     client_step (ep_nodes code) (c, chs2) (c', chs3) \<Longrightarrow>
     \<not> (\<exists>res. cc_phase c = ClFinished res) \<Longrightarrow> cc_phase c' = ClFinished res \<Longrightarrow>
     handle_end r res chs3 = (out, chs4) \<Longrightarrow>
     handle_run code config r (bopt, chs) None out (bopt, chs4)"

section \<open>Lemmas\<close>

text \<open>No session of the broker is held by the channel.\<close>

definition unregistered :: "nat \<Rightarrow> broker \<Rightarrow> bool" where
  "unregistered r b \<longleftrightarrow> (\<forall>c e. dm_get (sessions b) c = Some e \<longrightarrow> entry_channel e \<noteq> r)"

lemma returns_send_packet: "returns (fst (send_packet p ch))"
  by (simp add: send_packet_def cmd_send_def)

text \<open>Admission: it returns; a refusal leaves the channel unregistered; and the invariants are kept.\<close>

lemma chans_ok_bound:
  "chans_ok chs \<Longrightarrow> chans_ok (chs(r := with_session (\<lambda>s. snd (bind_set info s)) (chs r)))"
  by (intro chans_ok_upd channel_ok_with_session chans_ok_at) (simp_all add: session_ok_tables)

lemma unregister_own:
  assumes "unregistered r b" and "register_session ord cid r will clean b chs = (present, b1, chs1)"
    and "ch_connection_id (chs2 r) = conn" and "unregister_session ord' cid conn graceful b1 chs2 = (b', chs')"
  shows "unregistered r b'"
proof -
  have "dm_get (sessions b1) = (dm_get (sessions b))(cid \<mapsto>
      \<lparr>entry_channel = r, entry_filters = [], entry_will = will, entry_clean_session = clean\<rparr>)"
    using register_session_parts(2) [of ord cid r will clean b chs] assms(2) by simp
  moreover from this have "dm_get (sessions b') = (dm_get (sessions b1))(cid := None)"
    using assms(3,4) by (auto simp: unregister_session_def Let_def)
  ultimately show ?thesis using assms(1) by (auto simp: unregistered_def split: if_splits)
qed

lemma server_admit_refused:
  assumes "keep_alive_refused (safety b) (con_keep_alive connect) \<or>
      \<not> auth_accepted (authenticate b connect (ch_remote_addr (chs r)))"
    and "server_admit ord r connect b chs = (res, b', chs')"
  shows "b' = b \<and> (\<exists>e. res = Err e) \<and> (\<exists>p. chs' = chs(r := snd (send_packet p (chs r))))"
proof -
  have "on_channel r (send_packet p) chs = (fst (send_packet p (chs r)), chs(r := snd (send_packet p (chs r))))" for p
    by (simp add: on_channel_def case_prod_beta)
  with assms show ?thesis
    by (cases "keep_alive_refused (safety b) (con_keep_alive connect)") (auto simp: server_admit_def Let_def)
qed

text \<open>Past the refusals: registered, bound and, when the CONNACK cannot be sent, unregistered again.\<close>

lemma server_admit_past_refusals:
  assumes "\<not> (keep_alive_refused (safety b) (con_keep_alive connect) \<or>
      \<not> auth_accepted (authenticate b connect (ch_remote_addr (chs r))))"
    and "cid = effective_client_id connect (chs r)"
    and "register_session ord cid r (map_option will_of_packet (con_will connect)) (con_clean_session connect) b chs =
      (present, b1, chs1)"
    and "send_packet (connack present Accepted) (with_session (\<lambda>s. snd (bind_set
      \<lparr>bind_client_id = cid, bind_keep_alive = con_keep_alive connect\<rparr> s)) (chs1 r)) = (sent, ch3)"
    and "unregister_session ord cid (ch_connection_id (chs r)) False b1 (chs1(r := ch3)) = (b4, chs4)"
  shows "server_admit ord r connect b chs = (if \<exists>e. sent = Err e then (Err ChannelClosed, b4, chs4)
    else (Ok \<lparr>adm_client_id = cid, adm_connection_id = ch_connection_id (chs r),
      adm_keep_alive = con_keep_alive connect\<rparr>, b1, chs1(r := ch3)))"
proof -
  have "sent = Ok () \<or> sent = Err ChannelClosed"
    using assms(4) by (auto simp: send_packet_def cmd_send_def split: if_splits)
  with assms show ?thesis by (auto simp: server_admit_def Let_def on_channel_def)
qed

lemma server_admit_facts:
  assumes free: "unregistered r b" and b: "broker_ok b" and chs: "chans_ok chs" and ord: "order_ok ord"
    and admit: "server_admit ord r connect b chs = (res, b', chs')"
  shows "returns res \<and> ((\<exists>x. res = Ok x) \<or> unregistered r b') \<and> broker_ok b' \<and> chans_ok chs'"
proof (cases "keep_alive_refused (safety b) (con_keep_alive connect) \<or>
      \<not> auth_accepted (authenticate b connect (ch_remote_addr (chs r)))")
  case True
  from server_admit_refused [OF True admit] free b chs show ?thesis by (auto simp: chans_ok_send)
next
  case False
  let ?cid = "effective_client_id connect (chs r)"
  let ?info = "\<lparr>bind_client_id = ?cid, bind_keep_alive = con_keep_alive connect\<rparr>"
  obtain present b1 chs1 where reg: "register_session ord ?cid r (map_option will_of_packet (con_will connect))
      (con_clean_session connect) b chs = (present, b1, chs1)" by (metis prod_cases3)
  have b1: "broker_ok b1" and chs1: "chans_ok chs1"
    using broker_ok_register [OF b] chans_ok_register [OF chs] free reg by (metis fst_conv snd_conv unregistered_def)+
  define chs2 where "chs2 = chs1(r := with_session (\<lambda>s. snd (bind_set ?info s)) (chs1 r))"
  obtain sent ch3 where send: "send_packet (connack present Accepted) (with_session (\<lambda>s. snd (bind_set ?info s)) (chs1 r)) =
      (sent, ch3)" by fastforce
  then have ch3: "chs1(r := ch3) = chs2(r := snd (send_packet (connack present Accepted) (chs2 r)))" by (simp add: chs2_def)
  have ok3: "chans_ok (chs1(r := ch3))" unfolding ch3 chs2_def by (intro chans_ok_send chans_ok_bound chs1)
  obtain b4 chs4 where un: "unregister_session ord ?cid (ch_connection_id (chs r)) False b1 (chs1(r := ch3)) = (b4, chs4)"
    by fastforce
  have "chs1 r = chs r"
    using register_other_channel [of b r ord ?cid] free reg by (metis snd_conv unregistered_def)
  then have "ch_connection_id ch3 = ch_connection_id (chs r)"
    using send by (auto simp: send_packet_def cmd_send_def split: if_splits)
  then have un4: "unregistered r b4" by (intro unregister_own [OF free reg _ un]) simp
  have ok4: "broker_ok b4" "chans_ok chs4"
    using broker_ok_unregister [OF b1] chans_ok_unregister [OF ok3] un by (metis fst_conv snd_conv)+
  show ?thesis
    using server_admit_past_refusals [OF False refl reg send un] admit un4 ok4 b1 ok3 by (auto split: if_splits)
qed

lemma server_open_facts:
  assumes "\<forall>b. bopt = Some b \<longrightarrow> unregistered r b \<and> broker_ok b" and "chans_ok chs" and "order_ok ord"
    and "server_open ord r bopt chs = (res, bopt', chs')"
  shows "returns res \<and> (\<forall>b'. bopt' = Some b' \<longrightarrow> ((\<exists>x. res = Ok x) \<or> unregistered r b') \<and> broker_ok b') \<and> chans_ok chs'"
proof (cases bopt)
  case None
  with assms show ?thesis by (auto simp: server_open_def)
next
  case (Some b)
  let ?chs = "chs(r := (chs r)\<lparr>ch_reader := None\<rparr>)"
  have ok: "chans_ok ?chs" using assms(2) by (auto simp: chans_ok_def channel_ok_def)
  show ?thesis
  proof (cases "ch_reader (chs r)")
    case None
    with assms Some ok show ?thesis by (auto simp: server_open_def on_channel_def take_reader_def)
  next
    case rd: (Some rd)
    consider connect rd' where "read_packet rd (max_packet_size (safety b)) = Ok (Connect connect, rd')"
      | "\<exists>e. res = Err e" "bopt' = Some b" "chs' = ?chs"
      using assms(4) Some rd read_packet_never_panics [of rd]
      by (auto simp: server_open_def on_channel_def take_reader_def split: outcome.splits prod.splits packet.splits)
    then show ?thesis
    proof cases
      case (1 connect rd')
      obtain res' b' chs1 where ad: "server_admit ord r connect b ?chs = (res', b', chs1)" by (metis prod_cases3)
      with 1 assms(4) Some rd have "res = obind res' (\<lambda>a. Ok (a, rd'))" "bopt' = Some b'" "chs' = chs1"
        by (simp_all add: server_open_def on_channel_def take_reader_def)
      with server_admit_facts [OF _ _ ok assms(3) ad] assms(1) Some show ?thesis
        by (cases res') auto
    qed (use assms(1) Some ok in auto)
  qed
qed

lemma client_open_returns: "returns (fst (client_open config r chs))"
proof (cases config)
  case None
  then show ?thesis by (simp add: client_open_def)
next
  case (Some cfg)
  have sub: "returns (fst (client_initial_subscribe cfg r chs))" for chs
    using returns_send_packet by (simp add: client_initial_subscribe_def Let_def case_prod_beta)
  show ?thesis
  proof (cases "ch_reader (chs r)")
    case None
    with Some show ?thesis by (simp add: client_open_def on_channel_def take_reader_def)
  next
    case rd: (Some rd)
    show ?thesis
    proof (cases "ch_actor (chs r) = Stopped")
      case True
      with Some rd show ?thesis
        by (simp add: client_open_def on_channel_def take_reader_def send_packet_def cmd_send_def)
    next
      case False
      show ?thesis
        unfolding Some client_open_reply [of chs r, OF rd False refl]
        using read_packet_never_panics [of rd] sub
        by (auto simp: Let_def case_prod_beta returns_obind split: outcome.splits prod.splits packet.splits)
    qed
  qed
qed

text \<open>The step with which the client's task returns.\<close>

lemma client_finishing_step:
  assumes "client_step endpoints (c, chs1) (c', chs2)"
    and "\<not> (\<exists>res. cc_phase c = ClFinished res)" and "cc_phase c' = ClFinished res"
  shows "returns res"
  using assms(1)
proof (cases rule: client_step.cases)
  case (cl_read inbound)
  then show ?thesis
    using client_round_finished [OF cl_read(1) [symmetric] _ assms(3,2)] read_packet_never_panics by auto
next
  case (cl_tick k)
  then show ?thesis using ping_round_channel(2) [of k c] assms(3) by (metis fst_conv)
qed (use assms(2,3) in auto)

section \<open>Properties\<close>



end
