(* ===== verification/Mqtt_System.thy ===== *)
theory Mqtt_System
  imports Mqtt_Handle
begin

text \<open>
  A server with any number of connections: the handlers of \<^verbatim>\<open>src/src/protocol/server.rs\<close> run side by side
  on one broker and one store of channels, each move being one connection's. It is shown that every
  connection, taken alone, makes a run of \<open>server_step\<close>: what the others do is what that relation lets
  others do, so that everything proved of one connection holds of each connection of a running server.
\<close>

section \<open>What others do\<close>

text \<open>
  No handle is dropped while the server runs: a channel is held by its connection's task and by the broker's table.
\<close>

definition handled :: "chans \<Rightarrow> bool" where
  "handled chs \<longleftrightarrow> (\<forall>x. ch_handles (chs x))"

text \<open>An atomic action of a writer actor or of a task that holds a handle.\<close>

inductive task_step :: "chans \<Rightarrow> chans \<Rightarrow> bool" where
  task: "chan_step (chs x) l ch \<Longrightarrow> l \<noteq> Released \<Longrightarrow> task_step chs (chs(x := ch))"

text \<open>What is asked of endpoint code here: what it does to channels, it does through handles.\<close>

definition endpoint_acts :: "('n, 'k) endpoint_code \<Rightarrow> bool" where
  "endpoint_acts code \<longleftrightarrow> (\<forall>k chs. handled chs \<longrightarrow> task_step\<^sup>*\<^sup>* chs (snd (snd (ep_poll code k chs))))"

text \<open>What the connection on channel \<open>r\<close> sees of the others, with the handles kept.\<close>

inductive env_step :: "nat \<Rightarrow> broker \<times> chans \<Rightarrow> broker \<times> chans \<Rightarrow> bool" for r :: nat where
  env_broker:
    "broker_step (b, chs) (b', chs') \<Longrightarrow> (handled chs \<Longrightarrow> handled chs') \<Longrightarrow> env_step r (b, chs) (b', chs')"
| env_elsewhere:
    "x \<noteq> r \<Longrightarrow> env_step r (b, chs) (b, chs(x := (chs x)\<lparr>ch_reader := rd, ch_loop := l\<rparr>))"

abbreviation env_run :: "nat \<Rightarrow> broker \<times> chans \<Rightarrow> broker \<times> chans \<Rightarrow> bool" where
  "env_run r \<equiv> rtranclp (env_step r)"

section \<open>The system\<close>

text \<open>
  The connections that have been admitted, by their channels. A connection is admitted or refused, an admitted
  one moves, or a writer actor or some task that holds a handle does. An admission, from the CONNECT to the
  queued CONNACK, is one move here.
\<close>

inductive system_step ::
  "('n, 'k) endpoint_code \<Rightarrow> (nat \<Rightarrow> ('n, 'k) server_conn option) \<times> broker \<times> chans \<Rightarrow>
   (nat \<Rightarrow> ('n, 'k) server_conn option) \<times> broker \<times> chans \<Rightarrow> bool"
  for code :: "('n, 'k) endpoint_code" where
  sys_admit:
    "conns r = None \<Longrightarrow> unregistered r b \<Longrightarrow> order_ok ord \<Longrightarrow>
     server_open ord r (Some b) chs = (Ok (a, rd), Some b', chs') \<Longrightarrow>
     system_step code (conns, b, chs) (conns(r \<mapsto> server_conn_start r b' a rd), b', chs')"
| sys_refuse:
    "conns r = None \<Longrightarrow> unregistered r b \<Longrightarrow> order_ok ord \<Longrightarrow>
     server_open ord r (Some b) chs = (res, Some b', chs') \<Longrightarrow> \<not> (\<exists>x. res = Ok x) \<Longrightarrow>
     system_step code (conns, b, chs) (conns, b', snd (handle_end r res chs'))"
| sys_move:
    "conns r = Some c \<Longrightarrow> server_move code (c, b, chs) (c', b', chs') \<Longrightarrow>
     system_step code (conns, b, chs) (conns(r \<mapsto> c'), b', chs')"
| sys_task:
    "task_step chs chs' \<Longrightarrow> system_step code (conns, b, chs) (conns, b, chs')"

abbreviation system_run ::
  "('n, 'k) endpoint_code \<Rightarrow> (nat \<Rightarrow> ('n, 'k) server_conn option) \<times> broker \<times> chans \<Rightarrow>
   (nat \<Rightarrow> ('n, 'k) server_conn option) \<times> broker \<times> chans \<Rightarrow> bool" where
  "system_run code \<equiv> rtranclp (system_step code)"

section \<open>What a connection does is what others expect\<close>

lemma handled_upd: "handled chs \<Longrightarrow> ch_handles ch \<Longrightarrow> handled (chs(x := ch))"
  by (simp add: handled_def)

lemma chan_step_handles: "chan_step ch l ch' \<Longrightarrow> l \<noteq> Released \<Longrightarrow> ch_handles ch' = ch_handles ch"
  by (induction rule: chan_step.induct) (auto simp: cmd_send_def split: if_splits)

lemma task_step_handled: "task_step chs chs' \<Longrightarrow> handled chs \<Longrightarrow> handled chs'"
  by (induction rule: task_step.induct) (auto simp: handled_def chan_step_handles)

lemma env_handled: "env_run r s s' \<Longrightarrow> handled (snd s) \<Longrightarrow> handled (snd s')"
proof (induction rule: rtranclp_induct)
  case (step s' s'')
  from step.hyps(2) step show ?case by (cases rule: env_step.cases) (auto simp: handled_def)
qed simp

lemma env_task: "task_step\<^sup>*\<^sup>* chs chs' \<Longrightarrow> env_run r (b, chs) (b, chs')"
proof (induction rule: rtranclp_induct)
  case (step chs' chs'')
  have "env_step r (b, chs') (b, chs'')"
    using step.hyps(2) by (intro env_broker) (auto intro: b_channel task_step_handled elim: task_step.cases)
  with step.IH show ?case by (rule rtranclp.rtrancl_into_rtrancl)
qed simp

text \<open>The actions of a connection's task, one by one, as actions through a handle.\<close>

lemma env_send: "handled chs \<Longrightarrow> env_run r (b, chs) (b, chs(x := snd (cmd_send c (chs x))))"
proof (cases "ch_actor (chs x) = Stopped")
  case True
  then show ?thesis by (simp add: cmd_send_def fun_upd_idem)
next
  case False
  assume "handled chs"
  with False have "chan_step (chs x) (Enqueued c) (snd (cmd_send c (chs x)))"
    by (intro step_send) (auto simp: handled_def cmd_send_def)
  from task [of chs x, OF this] show ?thesis by (intro env_task r_into_rtranclp) simp
qed

lemma env_send_packet: "handled chs \<Longrightarrow> env_run r (b, chs) (b, chs(x := snd (send_packet p (chs x))))"
  unfolding send_packet_def by (rule env_send)

lemma env_session:
  "handled chs \<Longrightarrow> env_run r (b, chs) (b, chs(x := with_session (session_step op) (chs x)))"
  by (rule env_task, rule r_into_rtranclp, rule task [OF step_session [where op = op]]) (simp_all add: handled_def)

lemma env_close: "handled chs \<Longrightarrow> env_run r (b, chs) (b, chs(x := close (chs x)))"
  by (rule env_task, rule r_into_rtranclp, rule task [OF step_close]) (simp_all add: handled_def)


lemma publish_handles: "ch_handles (publish ord source p b chs x) = ch_handles (chs x)"
proof -
  have d: "ch_handles (deliver_to p q ch) = ch_handles ch" for q ch
    by (simp add: deliver_to_def send_publish_def Let_def with_session_def split: prod.splits)
  have "ch_handles (deliver_one b source p m chs x) = ch_handles (chs x)" for m chs
    by (cases m) (auto simp: deliver_one_def d split: option.splits)
  then have "ch_handles (fold (deliver_one b source p) ms chs x) = ch_handles (chs x)" for ms
    by (induction ms arbitrary: chs) simp_all
  then show ?thesis by (simp add: publish_def)
qed

lemma publish_will_handles: "ch_handles (publish_will ord w b chs x) = ch_handles (chs x)"
  by (simp add: publish_will_def publish_handles split: option.splits)

lemma broker_ops_handled:
  "handled chs \<Longrightarrow> handled (publish ord source p b chs)"
  "handled chs \<Longrightarrow> handled (snd (snd (register_session ord cid x will clean b chs)))"
  "handled chs \<Longrightarrow> handled (snd (unregister_session ord cid conn graceful b chs))"
  using unregister_cases [of ord cid conn graceful b chs]
  by (auto simp: handled_def publish_handles publish_will_handles register_session_parts unregister_session_eq Let_def
      dest!: entry_of_connectionD split: option.splits)

lemma env_publish: "order_ok ord \<Longrightarrow> env_run r (b, chs) (b, publish ord source p b chs)"
  by (rule r_into_rtranclp, rule env_broker [OF b_publish]) (simp_all add: broker_ops_handled)

lemma env_register:
  "order_ok ord \<Longrightarrow> unregistered x b \<Longrightarrow> register_session ord cid x will clean b chs = (present, b', chs') \<Longrightarrow>
   env_run r (b, chs) (b', chs')"
  using b_register [of ord cid b x chs will clean] broker_ops_handled(2) [of chs ord cid x will clean b]
  by (auto simp: unregistered_def intro!: r_into_rtranclp env_broker)

lemma env_unregister:
  "order_ok ord \<Longrightarrow> unregister_session ord cid conn graceful b chs = (b', chs') \<Longrightarrow> env_run r (b, chs) (b', chs')"
  using b_unregister [of ord b chs cid conn graceful] broker_ops_handled(3) [of chs ord cid conn graceful b]
  by (auto intro!: r_into_rtranclp env_broker)

lemma env_subscribe: "broker_subscribe cid conn tfs b chs = (codes, b') \<Longrightarrow> env_run r (b, chs) (b', chs)"
  using b_subscribe [of b chs cid conn tfs] by (auto intro!: r_into_rtranclp env_broker)

lemma env_unsubscribe: "env_run r (b, chs) (broker_unsubscribe cid conn ts b chs, chs)"
  by (rule r_into_rtranclp, rule env_broker [OF b_unsubscribe])

lemma env_loop: "x \<noteq> r \<Longrightarrow> env_run r (b, chs) (b, set_loop l x chs)"
  using env_elsewhere [of x r b chs l "ch_reader (chs x)"] by (auto simp: set_loop_def)

lemma env_take_reader: "x \<noteq> r \<Longrightarrow> env_run r (b, chs) (b, chs(x := (chs x)\<lparr>ch_reader := None\<rparr>))"
  using env_elsewhere [of x r b chs "ch_loop (chs x)" None] by auto

lemmas env_trans = rtranclp_trans [where r = "env_step r" for r]

lemma session_ops [simp]:
  "session_step (OpWakeAck i kind) = wake_ack_waiter i kind" "session_step (OpClear i) = clear_outbound_inflight i"
  "session_step (OpStash i p) = stash_qos2_publish i p" "session_step (OpBind info) = (\<lambda>s. snd (bind_set info s))"
  "session_step (OpTake i) = (\<lambda>s. snd (take_qos2_publish i s))"
  by (simp_all add: fun_eq_iff)

text \<open>A sequence of actions on one channel, of sends and of operations on its session.\<close>

lemma env_two:
  "env_run r (b, chs) (b1, chs1) \<Longrightarrow> handled chs \<Longrightarrow> (handled chs1 \<Longrightarrow> env_run r (b1, chs1) (b2, chs2)) \<Longrightarrow>
   env_run r (b, chs) (b2, chs2)"
  using env_handled [of r "(b, chs)" "(b1, chs1)"] by (auto intro: env_trans)

lemma env_session_send:
  assumes "handled chs"
  shows "env_run r (b, chs) (b, chs(x := snd (send_packet p (with_session (session_step op) (chs x)))))"
proof (rule env_two [OF env_session [OF assms] assms])
  assume h: "handled (chs(x := with_session (session_step op) (chs x)))"
  from env_send_packet [OF this, of r b x p]
  show "env_run r (b, chs(x := with_session (session_step op) (chs x)))
     (b, chs(x := snd (send_packet p (with_session (session_step op) (chs x)))))" by simp
qed

lemma env_session_twice:
  assumes "handled chs"
  shows "env_run r (b, chs) (b, chs(x := with_session (session_step op') (with_session (session_step op) (chs x))))"
proof (rule env_two [OF env_session [OF assms] assms])
  assume h: "handled (chs(x := with_session (session_step op) (chs x)))"
  from env_session [OF this, of r b x op']
  show "env_run r (b, chs(x := with_session (session_step op) (chs x)))
     (b, chs(x := with_session (session_step op') (with_session (session_step op) (chs x))))" by simp
qed

lemma env_ack_pre_chain:
  assumes "handled chs"
  shows "env_run r (b, chs) (b, chs(x := snd (ack_inbound_publish_pre_chain p (chs x))))"
  using assms env_session_send [OF assms, of r b x _ "OpStash _ (incoming_from_packet p)"]
  by (auto simp: ack_inbound_publish_pre_chain_def Let_def env_send_packet fun_upd_idem split: qos.splits option.splits)

lemma env_dispatch:
  assumes "handled chs" and "dispatch_server_inbound x cid conn alive p (b, chs, work) = (res, b', chs', work')"
  shows "env_run r (b, chs) (b', chs')"
proof (cases p)
  case (Publish q)
  with assms(2) env_ack_pre_chain [OF assms(1), of r b x q] show ?thesis
    by (auto simp: Let_def case_prod_beta split: outcome.splits if_splits)
next
  case (Subscribe q)
  obtain codes b1 where "broker_subscribe cid conn (map (\<lambda>ts. \<lparr>tf_filter = ts_topic ts, tf_qos = ts_qos ts\<rparr>)
      (sub_subscriptions q)) b chs = (codes, b1)" by fastforce
  with assms Subscribe env_trans [OF env_subscribe [OF this, of r] env_send_packet [OF assms(1), of r b1 x]] show ?thesis
    by (auto simp: Let_def case_prod_beta)
next
  case (Unsubscribe q)
  with assms(2) env_trans [OF env_unsubscribe [of r b chs cid conn "unsub_topics q"] env_send_packet [OF assms(1), of r _ x]]
  show ?thesis by (auto simp: Let_def case_prod_beta)
next
  case Pingreq
  with assms env_send_packet [OF assms(1), of r b x] show ?thesis by (auto simp: case_prod_beta)
next
  case (Puback i)
  with assms(2) env_session_twice [OF assms(1), of r b x "OpClear i" "OpWakeAck i KPuback"] show ?thesis
    by (auto simp: Let_def)
next
  case (Pubrec i)
  with assms(2) env_session_send [OF assms(1), of r b x _ "OpWakeAck i KPubrec"] show ?thesis
    by (auto simp: Let_def case_prod_beta)
next
  case (Pubcomp i)
  with assms(2) env_session_twice [OF assms(1), of r b x "OpClear i" "OpWakeAck i KPubcomp"] show ?thesis
    by (auto simp: Let_def)
next
  case (Pubrel i)
  have take: "with_session (\<lambda>_. snd (take_qos2_publish i (ch_session (chs x)))) (chs x) =
      with_session (session_step (OpTake i)) (chs x)" by (simp add: with_session_def)
  show ?thesis
    using assms(2) env_session_send [OF assms(1), of r b x _ "OpTake i"] env_session [OF assms(1), of r b x "OpTake i"]
    by (auto simp: Pubrel Let_def case_prod_beta take [simplified] split: outcome.splits)
qed (use assms in auto)

lemma env_loop_round:
  assumes "handled chs" and "loop_round ro c b chs = (c', b', chs')"
  shows "env_run r (b, chs) (b', chs')"
proof (cases ro)
  case (ReadPacket p rd)
  obtain res b1 chs1 work where d: "dispatch_server_inbound (cn_channel c) (cn_client_id c) (cn_connection_id c)
      (cn_worker c \<noteq> WGone) p (b, chs, cn_work c) = (res, b1, chs1, work)" by (metis prod_cases4)
  from env_dispatch [OF assms(1) d, of r] d assms(2) show ?thesis
    by (auto simp: loop_round_def ReadPacket Let_def split: if_splits outcome.splits)
qed (use assms in \<open>auto simp: loop_round_def split: mqtt_error.splits\<close>)

lemma env_worker_round:
  assumes "endpoint_acts code" and "handled chs" and "order_ok ord"
    and "worker_round code ord x src w work b chs = Some (w', work', chs')"
  shows "env_run r (b, chs) (b, chs')"
proof -
  have fan: "env_run r (b, chs1) (b, fan_out ord src out b chs1)" for out chs1
    using env_publish [OF assms(3)] by (cases out) (simp_all add: fan_out_def)
  have poll: "env_run r (b, chs) (b, snd (chain_poll code x k nodes fo p chs))" for k nodes fo p
    unfolding chain_poll_chans using assms(1,2) by (intro env_task) (simp add: endpoint_acts_def)
  show ?thesis
    using assms(4) fan env_trans [OF poll fan]
    by (cases w) (auto simp: worker_round_def Let_def case_prod_beta split: list.splits)
qed

text \<open>Every move of a connection is, for every other one, something others may do.\<close>

lemma env_move:
  assumes "server_move code (c, b, chs) (c', b', chs')" and "endpoint_acts code" and "handled chs"
    and "cn_channel c \<noteq> r"
  shows "env_run r (b, chs) (b', chs')"
  using assms(1)
proof (cases rule: server_move.cases)
  case (mv_read ro)
  have h: "handled (set_loop None (cn_channel c) chs)" using assms(3) by (simp add: handled_def set_loop_def)
  show ?thesis
    using env_trans [OF env_loop [OF assms(4)] env_loop_round [OF h mv_read(1) [symmetric]]] .
next
  case (mv_wind)
  then show ?thesis using env_close [OF assms(3)] by simp
next
  case (mv_work ord w work)
  then show ?thesis using env_worker_round [OF assms(2,3) mv_work(3,4)] by simp
next
  case (mv_finish ord)
  then show ?thesis using env_unregister [OF mv_finish(4,5)] by simp
qed (use env_loop [OF assms(4)] in auto)

text \<open>So is the opening of a connection.\<close>

lemma env_admit:
  assumes "handled chs" and "unregistered x b" and "order_ok ord"
    and "server_admit ord x connect b chs = (res, b', chs')"
  shows "env_run r (b, chs) (b', chs')"
proof (cases "keep_alive_refused (safety b) (con_keep_alive connect) \<or>
      \<not> auth_accepted (authenticate b connect (ch_remote_addr (chs x)))")
  case True
  from server_admit_refused [OF True assms(4)] env_send_packet [OF assms(1), of r b x] show ?thesis by auto
next
  case False
  let ?cid = "effective_client_id connect (chs x)"
  let ?info = "\<lparr>bind_client_id = ?cid, bind_keep_alive = con_keep_alive connect\<rparr>"
  obtain present b1 chs1 where reg: "register_session ord ?cid x (map_option will_of_packet (con_will connect))
      (con_clean_session connect) b chs = (present, b1, chs1)" by (metis prod_cases3)
  note e1 = env_register [OF assms(3,2) reg, of r]
  have h1: "handled chs1" using env_handled [OF e1] assms(1) by simp
  obtain sent ch3 where send: "send_packet (connack present Accepted) (with_session (\<lambda>s. snd (bind_set ?info s)) (chs1 x)) =
      (sent, ch3)" by fastforce
  then have e2: "env_run r (b, chs) (b1, chs1(x := ch3))"
    using env_trans [OF e1 env_session_send [OF h1, of r b1 x "connack present Accepted" "OpBind ?info"]] by simp
  obtain b4 chs4 where un: "unregister_session ord ?cid (ch_connection_id (chs x)) False b1 (chs1(x := ch3)) = (b4, chs4)"
    by fastforce
  note e4 = env_trans [OF e2 env_unregister [OF assms(3) un]]
  show ?thesis
    using server_admit_past_refusals [OF False refl reg send un] assms(4) e2 e4 by (auto split: if_splits)
qed

lemma env_open:
  assumes "handled chs" and "unregistered x b" and "order_ok ord" and "x \<noteq> r"
    and "server_open ord x (Some b) chs = (res, Some b', chs')"
  shows "env_run r (b, chs) (b', chs')"
proof (cases "ch_reader (chs x)")
  case None
  with assms(5) have "b' = b" "chs' = chs(x := (chs x)\<lparr>ch_reader := None\<rparr>)"
    by (simp_all add: server_open_def on_channel_def take_reader_def)
  with env_take_reader [OF assms(4)] show ?thesis by simp
next
  case rd: (Some rd)
  let ?chs = "chs(x := (chs x)\<lparr>ch_reader := None\<rparr>)"
  have h: "handled ?chs" using assms(1) by (simp add: handled_def)
  consider connect rd' where "read_packet rd (max_packet_size (safety b)) = Ok (Connect connect, rd')"
    | "b' = b" "chs' = ?chs"
    using assms(5) rd
    by (auto simp: server_open_def on_channel_def take_reader_def split: outcome.splits prod.splits packet.splits)
  then show ?thesis
  proof cases
    case (1 connect rd')
    obtain res' b1 chs1 where ad: "server_admit ord x connect b ?chs = (res', b1, chs1)" by (metis prod_cases3)
    with 1 assms(5) rd have "b' = b1" "chs' = chs1"
      by (simp_all add: server_open_def on_channel_def take_reader_def)
    with env_trans [OF env_take_reader [OF assms(4)] env_admit [OF h assms(2,3) ad]] show ?thesis by simp
  qed (use env_take_reader [OF assms(4)] in simp)
qed

section \<open>Each connection of the system is a run of its own\<close>

lemma env_run_server: "env_run (cn_channel c) s s' \<Longrightarrow> server_run code (c, s) (c, s')"
proof (induction rule: rtranclp_induct)
  case (step s' s'')
  from step.hyps(2) have "server_step code (c, s') (c, s'')"
    by (cases rule: env_step.cases) (auto intro: sv_others sv_elsewhere)
  with step.IH show ?case by (rule rtranclp.rtrancl_into_rtrancl)
qed simp

definition admitted_run :: "('n, 'k) endpoint_code \<Rightarrow> nat \<Rightarrow> ('n, 'k) server_conn \<Rightarrow> broker \<times> chans \<Rightarrow> bool" where
  "admitted_run code r c s \<longleftrightarrow>
     (\<exists>ord b0 chs0 a rd b1 chs1. order_ok ord \<and> server_open ord r (Some b0) chs0 = (Ok (a, rd), Some b1, chs1) \<and>
        server_run code (server_conn_start r b1 a rd, b1, chs1) (c, s))"

lemma admitted_run_extend:
  "admitted_run code r c s \<Longrightarrow> server_run code (c, s) (c', s') \<Longrightarrow> admitted_run code r c' s'"
  unfolding admitted_run_def by (meson rtranclp_trans)

lemma admitted_run_channel: "admitted_run code r c (b, chs) \<Longrightarrow> endpoint_safe code \<Longrightarrow> cn_channel c = r"
  unfolding admitted_run_def using started_conn_ok(2) by blast

definition system_ok ::
  "('n, 'k) endpoint_code \<Rightarrow> (nat \<Rightarrow> ('n, 'k) server_conn option) \<times> broker \<times> chans \<Rightarrow> bool" where
  "system_ok code s \<longleftrightarrow>
     endpoint_safe code \<and> endpoint_acts code \<and> broker_ok (fst (snd s)) \<and> chans_ok (snd (snd s)) \<and> handled (snd (snd s)) \<and>
     (\<forall>r c. fst s r = Some c \<longrightarrow> admitted_run code r c (snd s))"

text \<open>
  A step of one connection, or of none, is a sequence of steps of the others for every connection it leaves
  alone.
\<close>

lemma system_ok_others:
  assumes "system_ok code (conns, b, chs)" and "\<And>r. r \<noteq> x \<Longrightarrow> env_run r (b, chs) (b', chs')"
    and "broker_ok b'" and "chans_ok chs'" and "handled chs'" and "\<And>c. conns' x = Some c \<Longrightarrow> admitted_run code x c (b', chs')"
    and "\<And>r. r \<noteq> x \<Longrightarrow> conns' r = conns r"
  shows "system_ok code (conns', b', chs')"
proof -
  have "admitted_run code r c (b', chs')" if "conns' r = Some c" for r c
  proof (cases "r = x")
    case False
    then have "conns r = Some c" using that assms(7) by simp
    then have run: "admitted_run code r c (b, chs)" and safe: "endpoint_safe code"
      using assms(1) by (simp_all add: system_ok_def)
    with admitted_run_channel [OF run safe] have "server_run code (c, b, chs) (c, b', chs')"
      using env_run_server [of c "(b, chs)" "(b', chs')" code] assms(2) [OF False] by simp
    with run show ?thesis by (rule admitted_run_extend)
  qed (use that assms(6) in simp)
  with assms(1,3-5) show ?thesis by (simp add: system_ok_def)
qed

lemma system_step_ok:
  assumes "system_step code s s'" and ok: "system_ok code s"
  shows "system_ok code s'"
  using assms(1)
proof (cases rule: system_step.cases)
  case (sys_admit conns r b ord chs a rd b' chs')
  have inv: "broker_ok b" "chans_ok chs" "handled chs" using ok by (simp_all add: sys_admit(1) system_ok_def)
  have facts: "broker_ok b' \<and> chans_ok chs'"
    using server_open_facts [OF _ inv(2) sys_admit(5,6)] inv(1) sys_admit(4) by simp
  have env: "env_run x (b, chs) (b', chs')" if "x \<noteq> r" for x
    by (rule env_open [OF inv(3) sys_admit(4,5) _ sys_admit(6)]) (use that in simp)
  have "admitted_run code r (server_conn_start r b' a rd) (b', chs')"
    unfolding admitted_run_def using sys_admit(5,6) by blast
  moreover have "handled chs'" using env_handled [OF env [of "Suc r"]] inv(3) by simp
  ultimately show ?thesis
    unfolding sys_admit(2) using facts
    by (intro system_ok_others [OF ok [unfolded sys_admit(1)], where x = r] env) auto
next
  case (sys_refuse conns r b ord chs res b' chs')
  have inv: "broker_ok b" "chans_ok chs" "handled chs" using ok by (simp_all add: sys_refuse(1) system_ok_def)
  have facts: "broker_ok b' \<and> chans_ok chs'"
    using server_open_facts [OF _ inv(2) sys_refuse(5,6)] inv(1) sys_refuse(4) by simp
  have opened: "env_run x (b, chs) (b', chs')" if "x \<noteq> r" for x
    by (rule env_open [OF inv(3) sys_refuse(4,5) _ sys_refuse(6)]) (use that in simp)
  have h: "handled chs'" using env_handled [OF opened [of "Suc r"]] inv(3) by simp
  have env: "env_run x (b, chs) (b', chs'(r := close (chs' r)))" if "x \<noteq> r" for x
    by (rule env_trans [OF opened [OF that] env_close [OF h]])
  have "chans_ok (chs'(r := close (chs' r)))" "handled (chs'(r := close (chs' r)))"
    using facts h by (simp_all add: chans_ok_upd channel_ok_close chans_ok_at handled_def)
  then show ?thesis
    unfolding sys_refuse(2) handle_end_def snd_conv using facts sys_refuse(3)
    by (intro system_ok_others [OF ok [unfolded sys_refuse(1)], where x = r] env) auto
next
  case (sys_move conns r c b chs c' b' chs')
  have inv: "endpoint_safe code" "endpoint_acts code" "broker_ok b" "chans_ok chs" "handled chs"
    and run: "admitted_run code r c (b, chs)"
    using ok sys_move(3) by (simp_all add: sys_move(1) system_ok_def)
  note r = admitted_run_channel [OF run inv(1)]
  have env: "env_run x (b, chs) (b', chs')" if "x \<noteq> r" for x
    by (rule env_move [OF sys_move(4) inv(2,5)]) (use that r in simp)
  have "broker_ok b' \<and> chans_ok chs'"
    using server_move_keeps_ok [OF sys_move(4) inv(1)] inv(3,4) by simp
  moreover have "handled chs'" using env_handled [OF env [of "Suc r"]] inv(5) by simp
  moreover have "admitted_run code r c' (b', chs')"
    using run sv_move [OF sys_move(4)] by (blast intro: admitted_run_extend)
  ultimately show ?thesis
    unfolding sys_move(2)
    by (intro system_ok_others [OF ok [unfolded sys_move(1)], where x = r] env) auto
next
  case (sys_task chs chs' conns b)
  have inv: "chans_ok chs" "broker_ok b" "handled chs" using ok by (simp_all add: sys_task(1) system_ok_def)
  have env: "env_run x (b, chs) (b, chs')" for x using sys_task(3) by (intro env_task) blast
  have "chans_ok chs'"
    using sys_task(3) inv(1) by (cases rule: task_step.cases) (auto simp: chans_ok_def dest: channel_ok_step)
  moreover have "handled chs'" using task_step_handled [OF sys_task(3) inv(3)] .
  moreover have "admitted_run code x c (b, chs')" if "conns x = Some c" for x c
  proof -
    have "admitted_run code x c (b, chs)" using ok that by (simp add: sys_task(1) system_ok_def)
    moreover have "cn_channel c = x"
      using admitted_run_channel [OF calculation] ok by (simp add: system_ok_def)
    ultimately show ?thesis
      using env_run_server [of c "(b, chs)" "(b, chs')" code] env by (blast intro: admitted_run_extend)
  qed
  ultimately show ?thesis using ok inv(2) by (simp add: sys_task system_ok_def)
qed

interpretation system: step_invariant "system_step code" "system_ok code" for code
  by unfold_locales (rule system_step_ok)

lemma system_finishing:
  assumes "system_step code (conns, b, chs) (conns', b', chs')" and ok: "system_ok code (conns, b, chs)"
    and "conns r = Some c" and "conns' r = Some c'"
    and "\<not> (\<exists>res. cn_phase c = Finished res)" and "cn_phase c' = Finished res"
  shows "entry_of_connection (cn_client_id c) (cn_connection_id c) b' chs' = None \<and> \<not> is_open (chs' r)"
  using assms(1)
proof (cases rule: system_step.cases)
  case (sys_move x c1 c1')
  show ?thesis
  proof (cases "x = r")
    case True
    with sys_move assms(3,4) have mv: "server_move code (c, b, chs) (c', b', chs')" by simp
    have run: "admitted_run code r c (b, chs)" and safe: "endpoint_safe code"
      using ok assms(3) by (simp_all add: system_ok_def)
    then have c: "conn_ok c chs" "cn_channel c = r"
      using started_conn_ok(1,2) [OF safe] by (auto simp: admitted_run_def)
    obtain ord where "unregister_session ord (cn_client_id c) (cn_connection_id c) (cn_graceful c) b chs = (b', chs')"
      "\<not> is_open (chs' (cn_channel c))"
      using finishing_step [OF sv_move [OF mv] safe c(1) assms(5,6)] by metis
    with unregister_released(1) c(2) show ?thesis by auto
  qed (use sys_move assms(3-6) in auto)
qed (use assms(3-6) in \<open>auto split: if_splits\<close>)

section \<open>Properties\<close>


lemma server_open_connect:
  assumes "ch_reader (chs r) = Some rd" and "read_packet rd (max_packet_size (safety b)) = Ok (Connect connect, rd')"
    and "server_admit ord r connect b (chs(r := (chs r)\<lparr>ch_reader := None\<rparr>)) = (res, b', chs')"
  shows "server_open ord r (Some b) chs = (obind res (\<lambda>a. Ok (a, rd')), Some b', chs')"
  using assms by (simp add: server_open_def on_channel_def take_reader_def)

lemma joining_connect_wf: "wf_packet (Connect joining_connect)"
  by (simp add: joining_connect_def wf_connect_def str_field_def is_str_def utf8_width_def utf8_tail_ok_def
      byte_of_char_def)

lemma joining_connect_fits: "wire_length (Connect joining_connect) \<le> max_packet_size safety_new"
  by (simp add: joining_connect_def wire_length_def connect_body_fields will_field_def str_opt_field_def
      bytes_opt_field_def max_packet_size_def safety_new_def DEFAULT_MAX_PACKET_SIZE_def)

lemma echo_code_acts: "endpoint_acts echo_code"
  by (simp add: endpoint_acts_def echo_code_def)

text \<open>Channels on the first of which a client has sent its CONNECT.\<close>

definition joining_chans :: "8 word list \<Rightarrow> chans" where
  "joining_chans bs = fresh_chans(1 := (fresh_chans 1)\<lparr>ch_reader := Some \<lparr>rd_bytes = bs @ [], rd_end = Stalled\<rparr>\<rparr>)"

lemma joining_chans_ok: "chans_ok (joining_chans bs)" "handled (joining_chans bs)"
proof -
  show "chans_ok (joining_chans bs)"
    using chans_ok_fresh by (simp add: joining_chans_def chans_ok_def channel_ok_def)
  show "handled (joining_chans bs)"
    by (simp add: joining_chans_def handled_def fresh_chans_def channel_new_def next_connection_id_def)
qed

lemma joining_opens:
  assumes "encode_packet (Connect joining_connect) = Ok bs"
  shows "\<exists>b chs. server_open plain_order 1 (Some broker_accept_all) (joining_chans bs) =
    (Ok (\<lparr>adm_client_id = ''d'', adm_connection_id = 1, adm_keep_alive = 60\<rparr>, \<lparr>rd_bytes = [], rd_end = Stalled\<rparr>),
     Some b, chs)"
proof -
  let ?b = broker_accept_all and ?chs = "(joining_chans bs)(1 := (joining_chans bs 1)\<lparr>ch_reader := None\<rparr>)"
  have b: "safety ?b = safety_new" "authenticator ?b = accept_all_authenticator"
    "\<forall>c e. dm_get (sessions ?b) c = Some e \<longrightarrow> entry_channel e \<noteq> 1"
    by (simp_all add: broker_accept_all_def broker_build_def)
  have rd: "ch_reader (joining_chans bs 1) = Some \<lparr>rd_bytes = bs @ [], rd_end = Stalled\<rparr>"
    by (simp add: joining_chans_def)
  obtain present b1 chs1 where reg: "register_session plain_order ''d'' 1
      (map_option will_of_packet (con_will joining_connect)) (con_clean_session joining_connect) ?b ?chs =
      (present, b1, chs1)" by (metis prod_cases3)
  obtain res b2 chs2 where ad: "server_admit plain_order 1 joining_connect ?b ?chs = (res, b2, chs2)"
    by (metis prod_cases3)
  have "\<not> keep_alive_refused (safety ?b) (con_keep_alive joining_connect)"
    by (simp add: b joining_connect_policy)
  moreover have "auth_accepted (authenticate ?b joining_connect (ch_remote_addr (?chs 1)))"
    by (simp add: b authenticate_def accept_all_authenticator_def auth_accept_def)
  moreover have "ch_actor (?chs 1) \<noteq> Stopped" "ch_connection_id (?chs 1) = 1" by (simp_all add: joining_chans_def)
  ultimately have "res = Ok \<lparr>adm_client_id = ''d'', adm_connection_id = 1, adm_keep_alive = 60\<rparr>"
    using server_admit_accepts [OF _ _ b(3) _ joining_connect_policy(3) [symmetric] reg] ad
    by (simp add: joining_connect_def)
  then show ?thesis
    using server_open_connect [OF rd read_packet_encoded [OF joining_connect_wf _ assms] ad] joining_connect_fits
    by (simp add: b)
qed


end
