(* ===== verification/Mqtt_Send.thy ===== *)
theory Mqtt_Send
  imports Mqtt_Client
begin

text \<open>
  The outbound path shared by both roles, \<^verbatim>\<open>src/src/protocol/send.rs\<close>. An \<^verbatim>\<open>async\<close> send is a small
  machine: it starts, then is polled while it waits for an acknowledgement. \<open>send_start\<close> runs up to the
  first wait, \<open>send_poll\<close> from one wait to the next; the flag says whether the thirty seconds of the
  current wait are over.
\<close>

section \<open>Definitions\<close>

datatype send_state =
    SendDone "mqtt_response result"
  | AwaitPuback packet_id receiver
  | AwaitPubrec packet_id receiver
  | AwaitPubcomp packet_id receiver
  | AwaitSuback packet_id receiver
  | AwaitUnsuback packet_id receiver

definition on_session :: "(session \<Rightarrow> 'a \<times> session) \<Rightarrow> channel \<Rightarrow> 'a \<times> channel" where
  "on_session f ch = (let (x, s) = f (ch_session ch) in (x, ch\<lparr>ch_session := s\<rparr>))"

text \<open>\<^verbatim>\<open>?\<close> on a send, with the state to go on with.\<close>

definition after_send :: "unit result \<times> channel \<Rightarrow> send_state \<Rightarrow> send_state \<times> channel" where
  "after_send sent next =
     (case sent of
        (Ok _, ch) \<Rightarrow> (next, ch)
      | (Err e, ch) \<Rightarrow> (SendDone (Err e), ch)
      | (Panic, ch) \<Rightarrow> (SendDone Panic, ch)
      | (Pending, ch) \<Rightarrow> (SendDone Pending, ch))"

definition send_publish_start :: "publish_request \<Rightarrow> channel \<Rightarrow> send_state \<times> channel" where
  "send_publish_start req ch =
     (let (packet_id, ch) =
            (if preq_qos req \<noteq> AtMostOnce
             then (let (i, ch) = on_session allocate_packet_id ch in (Some i, ch))
             else (None, ch));
          packet = \<lparr>pub_topic = preq_topic req, pub_payload = preq_payload req, pub_dup = False,
                    pub_qos = preq_qos req, pub_retain = preq_retain req, pub_packet_id = packet_id\<rparr>
      in case preq_qos req of
           AtMostOnce \<Rightarrow> after_send (send_publish packet ch) (SendDone (Ok (Published Sent)))
         | AtLeastOnce \<Rightarrow>
             (case packet_id of
                None \<Rightarrow> (SendDone Panic, ch)
              | Some i \<Rightarrow>
                  (let (r, ch) = on_session (park_publish_ack_waiter i KPuback) ch
                   in after_send (send_publish packet ch) (AwaitPuback i r)))
         | ExactlyOnce \<Rightarrow>
             (case packet_id of
                None \<Rightarrow> (SendDone Panic, ch)
              | Some i \<Rightarrow>
                  (let (r, ch) = on_session (park_publish_ack_waiter i KPubrec) ch
                   in after_send (send_publish packet ch) (AwaitPubrec i r))))"

definition send_subscribe_start :: "topic_filter list \<Rightarrow> channel \<Rightarrow> send_state \<times> channel" where
  "send_subscribe_start filters ch =
     (let (i, ch) = on_session allocate_packet_id ch;
          (r, ch) = on_session (park_suback_waiter i) ch;
          subs = map (\<lambda>f. \<lparr>ts_topic = tf_filter f, ts_qos = tf_qos f\<rparr>) filters
      in after_send (send_packet (Subscribe \<lparr>sub_packet_id = i, sub_subscriptions = subs\<rparr>) ch)
           (AwaitSuback i r))"

definition send_unsubscribe_start :: "rstr list \<Rightarrow> channel \<Rightarrow> send_state \<times> channel" where
  "send_unsubscribe_start topics ch =
     (let (i, ch) = on_session allocate_packet_id ch;
          (r, ch) = on_session (park_unsuback_waiter i) ch
      in after_send (send_packet (Unsubscribe \<lparr>unsub_packet_id = i, unsub_topics = topics\<rparr>) ch)
           (AwaitUnsuback i r))"

fun send_start :: "mqtt_request \<Rightarrow> channel \<Rightarrow> send_state \<times> channel" where
  "send_start (ReqPublish req) ch = send_publish_start req ch"
| "send_start (ReqSubscribe filters) ch = send_subscribe_start filters ch"
| "send_start (ReqUnsubscribe topics) ch = send_unsubscribe_start topics ch"

text \<open>
  \<^verbatim>\<open>timeout(DEFAULT_ACK_TIMEOUT, receiver)\<close> with its two error mappings. The receiver is looked at
  before the clock.
\<close>

definition await_ack :: "bool \<Rightarrow> packet_id \<Rightarrow> receiver \<Rightarrow> channel \<Rightarrow> ack_value result \<times> channel" where
  "await_ack timed_out i r ch =
     (case oneshots (ch_session ch) r of
        Delivered v \<Rightarrow> (Ok v, ch)
      | SenderDropped \<Rightarrow> (Err ChannelClosed, ch)
      | Waiting \<Rightarrow>
          if timed_out then (Err (Timeout TimeoutAck), with_session (cancel_ack_waiter i) ch)
          else (Pending, ch))"

text \<open>The receivers are typed in the source: a value of another kind cannot arrive.\<close>

fun send_poll :: "bool \<Rightarrow> send_state \<Rightarrow> channel \<Rightarrow> send_state \<times> channel" where
  "send_poll t (SendDone res) ch = (SendDone res, ch)"
| "send_poll t (AwaitPuback i r) ch =
     (case await_ack t i r ch of
        (Ok (AckId j), ch) \<Rightarrow> (SendDone (Ok (Published (Acknowledged j))), ch)
      | (Ok _, ch) \<Rightarrow> (SendDone Panic, ch)
      | (Err e, ch) \<Rightarrow> (SendDone (Err e), ch)
      | (_, ch) \<Rightarrow> (AwaitPuback i r, ch))"
| "send_poll t (AwaitPubrec i r) ch =
     (case await_ack t i r ch of
        (Ok _, ch) \<Rightarrow> (let (r', ch) = on_session (park_publish_ack_waiter i KPubcomp) ch in (AwaitPubcomp i r', ch))
      | (Err e, ch) \<Rightarrow> (SendDone (Err e), ch)
      | (_, ch) \<Rightarrow> (AwaitPubrec i r, ch))"
| "send_poll t (AwaitPubcomp i r) ch =
     (case await_ack t i r ch of
        (Ok (AckId j), ch) \<Rightarrow> (SendDone (Ok (Published (Completed j))), ch)
      | (Ok _, ch) \<Rightarrow> (SendDone Panic, ch)
      | (Err e, ch) \<Rightarrow> (SendDone (Err e), ch)
      | (_, ch) \<Rightarrow> (AwaitPubcomp i r, ch))"
| "send_poll t (AwaitSuback i r) ch =
     (case await_ack t i r ch of
        (Ok (AckCodes codes), ch) \<Rightarrow> (SendDone (Ok (Subscribed codes)), ch)
      | (Ok _, ch) \<Rightarrow> (SendDone Panic, ch)
      | (Err e, ch) \<Rightarrow> (SendDone (Err e), ch)
      | (_, ch) \<Rightarrow> (AwaitSuback i r, ch))"
| "send_poll t (AwaitUnsuback i r) ch =
     (case await_ack t i r ch of
        (Ok _, ch) \<Rightarrow> (SendDone (Ok Unsubscribed), ch)
      | (Err e, ch) \<Rightarrow> (SendDone (Err e), ch)
      | (_, ch) \<Rightarrow> (AwaitUnsuback i r, ch))"

text \<open>
  \<open>send_impl\<close>: the request is taken out of the context, a default left in its place; the response is
  stored when the send is done.
\<close>

definition send_impl_start ::
  "'n mqtt_context \<Rightarrow> chans \<Rightarrow> (send_state \<times> 'n mqtt_context) result \<times> chans" where
  "send_impl_start ctx chs =
     (case ctx_channel ctx of
        None \<Rightarrow> (Err (NotConnected ''no channel installed in ctx''), chs)
      | Some r \<Rightarrow>
          (let request = ctx_request ctx;
               ctx = ctx\<lparr>ctx_request := ReqPublish publish_request_default\<rparr>;
               (st, chs) = on_channel r (send_start request) chs
           in (Ok (st, ctx), chs)))"

definition send_impl_done :: "mqtt_response result \<Rightarrow> 'n mqtt_context \<Rightarrow> 'n mqtt_context result" where
  "send_impl_done res ctx = obind res (\<lambda>response. Ok (ctx\<lparr>ctx_response := response\<rparr>))"

section \<open>The peer's answers\<close>

text \<open>
  What the send path relies on: the dispatcher of the connection settles each acknowledgement against
  the session of the channel it arrived on, and answers PUBREC with PUBREL. Both roles' dispatchers
  do.
\<close>

locale ack_dispatcher =
  fixes puback pubrec pubcomp :: "packet_id \<Rightarrow> channel \<Rightarrow> channel"
  assumes puback_session: "ch_session (puback i ch) = clear_outbound_inflight i (wake_ack_waiter i KPuback (ch_session ch))"
    and pubrec_session: "ch_session (pubrec i ch) = wake_ack_waiter i KPubrec (ch_session ch)"
    and pubrec_cmds: "ch_actor ch \<noteq> Stopped \<Longrightarrow> ch_cmds (pubrec i ch) = ch_cmds ch @ [CmdPacket (Pubrel i)]"
    and pubrec_actor: "ch_actor (pubrec i ch) = ch_actor ch"
    and pubcomp_session: "ch_session (pubcomp i ch) = clear_outbound_inflight i (wake_ack_waiter i KPubcomp (ch_session ch))"
begin

lemma puback_delivers:
  assumes "dm_get (pending_acks (ch_session ch)) i = Some (SlotPuback r)"
  shows "send_poll t (AwaitPuback i r) (puback i ch) = (SendDone (Ok (Published (Acknowledged i))), puback i ch)"
  using publish_ack.wake_delivers(1) [OF assms, of KPuback]
  by (simp add: await_ack_def puback_session clear_outbound_inflight_def)

lemma pubrec_advances:
  assumes "dm_get (pending_acks (ch_session ch)) i = Some (SlotPubrec r)"
  shows "send_poll t (AwaitPubrec i r) (pubrec i ch) =
    (let (r', ch') = on_session (park_publish_ack_waiter i KPubcomp) (pubrec i ch) in (AwaitPubcomp i r', ch'))"
  using publish_ack.wake_delivers(1) [OF assms, of KPubrec] by (simp add: await_ack_def pubrec_session)

lemma pubcomp_delivers:
  assumes "dm_get (pending_acks (ch_session ch)) i = Some (SlotPubcomp r)"
  shows "send_poll t (AwaitPubcomp i r) (pubcomp i ch) = (SendDone (Ok (Published (Completed i))), pubcomp i ch)"
  using publish_ack.wake_delivers(1) [OF assms, of KPubcomp]
  by (simp add: await_ack_def pubcomp_session clear_outbound_inflight_def)

end

text \<open>A dispatcher at work on one channel of the store.\<close>

definition server_dispatched :: "nat \<Rightarrow> rstr \<Rightarrow> u64 \<Rightarrow> bool \<Rightarrow> broker \<Rightarrow> packet \<Rightarrow> chans \<Rightarrow> chans" where
  "server_dispatched r cid conn alive b p chs =
     fst (snd (snd (dispatch_server_inbound r cid conn alive p (b, chs, []))))"

definition client_dispatched :: "(rstr \<Rightarrow> 'n list) \<Rightarrow> nat \<Rightarrow> 'h client_config \<Rightarrow> packet \<Rightarrow> chans \<Rightarrow> chans" where
  "client_dispatched endpoints r cfg p chs = fst (snd (dispatch_client_inbound endpoints r cfg p chs))"

interpretation server_acks: ack_dispatcher
  "\<lambda>i ch. server_dispatched r cid conn alive b (Puback i) (\<lambda>_. ch) r"
  "\<lambda>i ch. server_dispatched r cid conn alive b (Pubrec i) (\<lambda>_. ch) r"
  "\<lambda>i ch. server_dispatched r cid conn alive b (Pubcomp i) (\<lambda>_. ch) r"
  for r cid conn alive b
  by unfold_locales (simp_all add: server_dispatched_def Let_def on_channel_def case_prod_beta send_packet_def)

interpretation client_acks: ack_dispatcher
  "\<lambda>i ch. client_dispatched endpoints r cfg (Puback i) (\<lambda>_. ch) r"
  "\<lambda>i ch. client_dispatched endpoints r cfg (Pubrec i) (\<lambda>_. ch) r"
  "\<lambda>i ch. client_dispatched endpoints r cfg (Pubcomp i) (\<lambda>_. ch) r"
  for endpoints r cfg
  by unfold_locales (simp_all add: client_dispatched_def Let_def on_channel_def case_prod_beta send_packet_def)

text \<open>Both roles settle an acknowledgement in the same way, and only on their own channel.\<close>

lemma dispatched_acks:
  "server_dispatched r cid conn alive b (Puback i) chs =
     chs(r := server_dispatched r cid conn alive b (Puback i) (\<lambda>_. chs r) r)"
  "server_dispatched r cid conn alive b (Pubrec i) chs =
     chs(r := server_dispatched r cid conn alive b (Pubrec i) (\<lambda>_. chs r) r)"
  "server_dispatched r cid conn alive b (Pubcomp i) chs =
     chs(r := server_dispatched r cid conn alive b (Pubcomp i) (\<lambda>_. chs r) r)"
  "client_dispatched endpoints r cfg (Puback i) chs = server_dispatched r cid conn alive b (Puback i) chs"
  "client_dispatched endpoints r cfg (Pubrec i) chs = server_dispatched r cid conn alive b (Pubrec i) chs"
  "client_dispatched endpoints r cfg (Pubcomp i) chs = server_dispatched r cid conn alive b (Pubcomp i) chs"
  by (simp_all add: server_dispatched_def client_dispatched_def Let_def on_channel_def case_prod_beta)

section \<open>Lemmas\<close>

lemma on_session_simps [simp]:
  "fst (on_session f ch) = fst (f (ch_session ch))"
  "ch_session (snd (on_session f ch)) = snd (f (ch_session ch))"
  "ch_actor (snd (on_session f ch)) = ch_actor ch" "ch_cmds (snd (on_session f ch)) = ch_cmds ch"
  "ch_open (snd (on_session f ch)) = ch_open ch"
  by (simp_all add: on_session_def case_prod_beta)

lemma park_publish_get:
  "session_ok s \<Longrightarrow> dm_get (pending_acks (snd (park_publish_ack_waiter i kind s))) i =
     Some (slot_of_kind kind (fst (park_publish_ack_waiter i kind s)))"
  using park_slot_get [of s "slot_of_kind kind" i] by (simp add: parks_eq)

lemma after_send_live:
  "ch_actor ch \<noteq> Stopped \<Longrightarrow>
   after_send (send_publish p ch) st = (st, ch\<lparr>ch_cmds := ch_cmds ch @ [CmdPublish p]\<rparr>)"
  by (simp add: after_send_def send_publish_def cmd_send_def)

text \<open>
  The start of an acknowledged publish on a channel that can be written to: the id, the parked
  slot, the queued packet.
\<close>

lemma send_publish_start_acked:
  assumes "channel_ok ch" and "ch_actor ch \<noteq> Stopped" and "preq_qos req \<noteq> AtMostOnce"
    and "send_publish_start req ch = (st, ch')"
  obtains i r where
    "st = (if preq_qos req = AtLeastOnce then AwaitPuback i r else AwaitPubrec i r)" "i \<noteq> 0"
    "i = fst (allocate_packet_id (ch_session ch))"
    "dm_get (pending_acks (ch_session ch')) i =
      Some (if preq_qos req = AtLeastOnce then SlotPuback r else SlotPubrec r)"
    "ch_cmds ch' = ch_cmds ch @ [CmdPublish \<lparr>pub_topic = preq_topic req, pub_payload = preq_payload req,
       pub_dup = False, pub_qos = preq_qos req, pub_retain = preq_retain req, pub_packet_id = Some i\<rparr>]"
    "channel_ok ch'" "ch_actor ch' = ch_actor ch" "ch_open ch' = ch_open ch"
proof -
  define kind where "kind = (if preq_qos req = AtLeastOnce then KPuback else KPubrec)"
  define i where "i = fst (allocate_packet_id (ch_session ch))"
  define ch1 where "ch1 = snd (on_session allocate_packet_id ch)"
  define r where "r = fst (on_session (park_publish_ack_waiter i kind) ch1)"
  define ch2 where "ch2 = snd (on_session (park_publish_ack_waiter i kind) ch1)"
  have ok1: "session_ok (ch_session ch1)"
    using assms(1) by (simp add: ch1_def channel_ok_def session_ok_tables)
  have q: "preq_qos req = AtLeastOnce \<or> preq_qos req = ExactlyOnce"
    using assms(3) by (cases "preq_qos req") auto
  have start: "send_publish_start req ch =
      (if preq_qos req = AtLeastOnce then AwaitPuback i r else AwaitPubrec i r,
       ch2\<lparr>ch_cmds := ch_cmds ch @ [CmdPublish \<lparr>pub_topic = preq_topic req, pub_payload = preq_payload req,
         pub_dup = False, pub_qos = preq_qos req, pub_retain = preq_retain req, pub_packet_id = Some i\<rparr>]\<rparr>)"
    using q assms(2)
    by (auto simp: send_publish_start_def after_send_live case_prod_beta Let_def kind_def i_def ch1_def r_def ch2_def)
  have "dm_get (pending_acks (ch_session ch2)) i = Some (slot_of_kind kind r)"
    using park_publish_get [OF ok1, of i kind] by (simp add: ch2_def r_def)
  moreover have "session_ok (ch_session ch2)" using ok1 by (simp add: ch2_def session_ok_parks)
  ultimately show ?thesis
    using that [of i r] start assms(1,2,4) allocate_packet_id_nonzero [of "ch_session ch"]
    by (auto simp: kind_def channel_ok_def i_def ch2_def ch1_def)
qed

lemma send_subscribe_start_parks:
  assumes "channel_ok ch" and "ch_actor ch \<noteq> Stopped" and "send_subscribe_start filters ch = (st, ch')"
  obtains i r where "st = AwaitSuback i r" "i \<noteq> 0" "dm_get (pending_acks (ch_session ch')) i = Some (SlotSuback r)"
    "ch_cmds ch' = ch_cmds ch @ [CmdPacket (Subscribe \<lparr>sub_packet_id = i,
       sub_subscriptions = map (\<lambda>f. \<lparr>ts_topic = tf_filter f, ts_qos = tf_qos f\<rparr>) filters\<rparr>)]"
proof -
  define i where "i = fst (allocate_packet_id (ch_session ch))"
  define s where "s = snd (allocate_packet_id (ch_session ch))"
  define r where "r = fst (park_suback_waiter i s)"
  have "session_ok s" using assms(1) by (simp add: s_def channel_ok_def session_ok_tables)
  then have "dm_get (pending_acks (snd (park_suback_waiter i s))) i = Some (SlotSuback r)"
    using park_slot_get [of s SlotSuback i] by (simp add: r_def parks_eq)
  moreover have "send_subscribe_start filters ch = (AwaitSuback i r, ch\<lparr>ch_session := snd (park_suback_waiter i s),
      ch_cmds := ch_cmds ch @ [CmdPacket (Subscribe \<lparr>sub_packet_id = i,
        sub_subscriptions = map (\<lambda>f. \<lparr>ts_topic = tf_filter f, ts_qos = tf_qos f\<rparr>) filters\<rparr>)]\<rparr>)"
    using assms(2)
    by (simp add: send_subscribe_start_def on_session_def case_prod_beta Let_def after_send_def send_packet_def
        cmd_send_def i_def s_def r_def)
  ultimately show ?thesis using that [of i r] assms(3) by (auto simp: i_def)
qed

lemma poll_waiting:
  assumes "channel_ok ch" and "dm_get (pending_acks (ch_session ch)) i = Some slot"
  shows "await_ack t i (slot_sender slot) ch =
    (if t then (Err (Timeout TimeoutAck), with_session (cancel_ack_waiter i) ch) else (Pending, ch))"
  using sender_fresh(2) [OF _ assms(2)] assms(1) by (simp add: await_ack_def channel_ok_def)

lemma channel_ok_park:
  "channel_ok ch \<Longrightarrow> channel_ok (snd (on_session (park_publish_ack_waiter i kind) ch))"
  by (simp add: channel_ok_def session_ok_parks)

lemma channel_ok_dispatched_pubrec:
  assumes "channel_ok (chs r)"
  shows "channel_ok (server_dispatched r cid conn alive b (Pubrec i) chs r)"
  using assms
  by (simp add: server_dispatched_def Let_def on_channel_def case_prod_beta session_ok_wakes
      channel_ok_send_packet channel_ok_with_session)

text \<open>A sequence of polls, each with its clock and the channel as it is then; and the waits left.\<close>

definition send_polls :: "send_state \<Rightarrow> (bool \<times> channel) list \<Rightarrow> send_state" where
  "send_polls = foldl (\<lambda>st (t, ch). fst (send_poll t st ch))"

fun send_left :: "send_state \<Rightarrow> nat" where
  "send_left (SendDone _) = 0"
| "send_left (AwaitPubrec _ _) = 2"
| "send_left _ = 1"

fun awaited :: "send_state \<Rightarrow> receiver option" where
  "awaited (SendDone _) = None"
| "awaited (AwaitPuback _ r) = Some r"
| "awaited (AwaitPubrec _ r) = Some r"
| "awaited (AwaitPubcomp _ r) = Some r"
| "awaited (AwaitSuback _ r) = Some r"
| "awaited (AwaitUnsuback _ r) = Some r"

lemma send_left_0: "send_left st = 0 \<longleftrightarrow> (\<exists>res. st = SendDone res)"
  by (cases st) auto

lemma send_left_poll: "send_left (fst (send_poll t st ch)) \<le> send_left st - (if t then 1 else 0)"
  by (cases st)
    (auto simp: await_ack_def case_prod_beta split: oneshot.splits ack_value.splits outcome.splits)

lemma send_left_start: "send_left (fst (send_start req ch)) \<le> 2"
  by (cases req)
    (auto simp: send_publish_start_def send_subscribe_start_def send_unsubscribe_start_def after_send_def Let_def
      case_prod_beta split: qos.splits outcome.splits prod.splits)

lemma send_polls_left: "send_left (send_polls st polls) \<le> send_left st - length (filter fst polls)"
proof (induction polls arbitrary: st)
  case (Cons p polls)
  obtain t ch where "p = (t, ch)" by fastforce
  with Cons [of "fst (send_poll t st ch)"] send_left_poll [of t st ch] show ?case
    by (auto simp: send_polls_def split: if_splits)
qed (simp add: send_polls_def)

section \<open>Properties\<close>

text \<open>
  A QoS 1 publish completes. On a channel that can be written to, it takes a fresh non-zero id,
  parks a waiter under it before the packet is queued, queues exactly the requested PUBLISH with that
  id, and waits; the PUBACK for the id, dispatched by either role, makes the next poll return
  the acknowledgement, even when the deadline has passed in the meantime, and ends the retransmission
  record; without it, the deadline ends the send with an ack timeout.
\<close>

theorem qos1_publish_completes:
  assumes "channel_ok (chs r)" and "ch_actor (chs r) \<noteq> Stopped" and "preq_qos req = AtLeastOnce"
    and "send_publish_start req (chs r) = (st, ch1)"
  shows "\<exists>i rc. st = AwaitPuback i rc \<and> i \<noteq> 0 \<and>
    ch_cmds ch1 = ch_cmds (chs r) @ [CmdPublish \<lparr>pub_topic = preq_topic req, pub_payload = preq_payload req,
      pub_dup = False, pub_qos = AtLeastOnce, pub_retain = preq_retain req, pub_packet_id = Some i\<rparr>] \<and>
    send_poll False st ch1 = (st, ch1) \<and>
    fst (send_poll True st ch1) = SendDone (Err (Timeout TimeoutAck)) \<and>
    (let chs2 = server_dispatched r cid conn alive b (Puback i) (chs(r := ch1)) in
       send_poll t st (chs2 r) = (SendDone (Ok (Published (Acknowledged i))), chs2 r) \<and>
       \<not> has_outbound_inflight i (ch_session (chs2 r)) \<and>
       client_dispatched endpoints r cfg (Puback i) (chs(r := ch1)) = chs2)"
proof -
  obtain i rc where st: "st = AwaitPuback i rc" "i \<noteq> 0"
    "dm_get (pending_acks (ch_session ch1)) i = Some (SlotPuback rc)"
    "ch_cmds ch1 = ch_cmds (chs r) @ [CmdPublish \<lparr>pub_topic = preq_topic req, pub_payload = preq_payload req,
      pub_dup = False, pub_qos = AtLeastOnce, pub_retain = preq_retain req, pub_packet_id = Some i\<rparr>]"
    "channel_ok ch1"
    by (rule send_publish_start_acked [OF assms(1,2) _ assms(4)]) (use assms(3) in auto)
  have poll: "await_ack False i rc ch1 = (Pending, ch1)"
    "fst (await_ack True i rc ch1) = Err (Timeout TimeoutAck)"
    using poll_waiting [OF st(5,3)] by simp_all
  let ?chs2 = "server_dispatched r cid conn alive b (Puback i) (chs(r := ch1))"
  have chs2: "?chs2 r = server_dispatched r cid conn alive b (Puback i) (\<lambda>_. ch1) r"
    using dispatched_acks(1) [of r cid conn alive b i "chs(r := ch1)"] by (metis fun_upd_same)
  have "send_poll t st (?chs2 r) = (SendDone (Ok (Published (Acknowledged i))), ?chs2 r)"
    unfolding chs2 st(1) by (rule server_acks.puback_delivers [OF st(3)])
  moreover have "\<not> has_outbound_inflight i (ch_session (?chs2 r))"
    unfolding chs2 by (simp add: server_acks.puback_session has_outbound_inflight_def clear_outbound_inflight_def)
  ultimately show ?thesis
    using st(1,2,4) poll dispatched_acks(4) [of endpoints r cfg i "chs(r := ch1)" cid conn alive b]
    by (auto simp: Let_def case_prod_beta intro!: exI [of _ i] split: prod.splits)
qed

definition sample_request :: "qos \<Rightarrow> publish_request" where
  "sample_request q = \<lparr>preq_topic = ''t'', preq_payload = [1], preq_qos = q, preq_retain = False\<rparr>"

theorem qos1_publish_completes_witness:
  "\<exists>i rc ch1. send_publish_start (sample_request AtLeastOnce) (fresh_chans 0) = (AwaitPuback i rc, ch1) \<and>
     fst (send_poll False (AwaitPuback i rc)
       (server_dispatched 0 ''c'' 0 True sample_broker (Puback i) (fresh_chans(0 := ch1)) 0)) =
       SendDone (Ok (Published (Acknowledged i)))"
proof -
  obtain st ch1 where start: "send_publish_start (sample_request AtLeastOnce) (fresh_chans 0) = (st, ch1)"
    by fastforce
  have "preq_qos (sample_request AtLeastOnce) = AtLeastOnce" by (simp add: sample_request_def)
  from qos1_publish_completes [where chs = fresh_chans and r = 0, OF chans_ok_at [OF chans_ok_fresh] _ this start, of "''c''" 0 True sample_broker
      False segments_of "client_config_new ''c'' :: unit client_config"] start
  show ?thesis by (auto simp: Let_def)
qed

text \<open>
  C25: a QoS 2 publish completes when its answers come one at a time. PUBREC, dispatched by either
  role, queues PUBREL and lets the send park its second waiter under the same id; PUBCOMP then
  completes it.
\<close>

theorem qos2_publish_completes:
  assumes "channel_ok (chs r)" and "ch_actor (chs r) \<noteq> Stopped" and "preq_qos req = ExactlyOnce"
    and "send_publish_start req (chs r) = (st, ch1)"
  shows "\<exists>i rc rc'. st = AwaitPubrec i rc \<and> i \<noteq> 0 \<and>
    (let chs2 = server_dispatched r cid conn alive b (Pubrec i) (chs(r := ch1));
         (st2, ch3) = send_poll t st (chs2 r);
         chs4 = server_dispatched r cid conn alive b (Pubcomp i) (chs2(r := ch3))
     in ch_cmds (chs2 r) = ch_cmds ch1 @ [CmdPacket (Pubrel i)] \<and> st2 = AwaitPubcomp i rc' \<and>
        send_poll t' st2 (chs4 r) = (SendDone (Ok (Published (Completed i))), chs4 r) \<and>
        \<not> has_outbound_inflight i (ch_session (chs4 r)))"
proof -
  obtain i rc where st: "st = AwaitPubrec i rc" "i \<noteq> 0"
    "dm_get (pending_acks (ch_session ch1)) i = Some (SlotPubrec rc)" "channel_ok ch1" "ch_actor ch1 \<noteq> Stopped"
    by (rule send_publish_start_acked [OF assms(1,2) _ assms(4)]) (use assms(2,3) in auto)
  define chs2 where "chs2 = server_dispatched r cid conn alive b (Pubrec i) (chs(r := ch1))"
  have chs2: "chs2 r = server_dispatched r cid conn alive b (Pubrec i) (\<lambda>_. ch1) r"
    using dispatched_acks(2) [of r cid conn alive b i "chs(r := ch1)"] unfolding chs2_def by (metis fun_upd_same)
  have ok2: "channel_ok (chs2 r)"
    unfolding chs2_def by (rule channel_ok_dispatched_pubrec) (simp add: st(4))
  define rc' where "rc' = fst (on_session (park_publish_ack_waiter i KPubcomp) (chs2 r))"
  define ch3 where "ch3 = snd (on_session (park_publish_ack_waiter i KPubcomp) (chs2 r))"
  have poll: "send_poll t st (chs2 r) = (AwaitPubcomp i rc', ch3)"
    unfolding chs2 st(1) server_acks.pubrec_advances [OF st(3)]
    by (simp add: rc'_def ch3_def chs2 case_prod_beta)
  have "dm_get (pending_acks (ch_session ch3)) i = Some (SlotPubcomp rc')"
    using park_publish_get [of "ch_session (chs2 r)" i KPubcomp] ok2
    by (simp add: ch3_def rc'_def channel_ok_def)
  then have compl: "send_poll t' (AwaitPubcomp i rc') (server_dispatched r cid conn alive b (Pubcomp i) (\<lambda>_. ch3) r) =
      (SendDone (Ok (Published (Completed i))), server_dispatched r cid conn alive b (Pubcomp i) (\<lambda>_. ch3) r)"
    by (rule server_acks.pubcomp_delivers)
  have chs4: "server_dispatched r cid conn alive b (Pubcomp i) (chs2(r := ch3)) r =
      server_dispatched r cid conn alive b (Pubcomp i) (\<lambda>_. ch3) r"
    using dispatched_acks(3) [of r cid conn alive b i "chs2(r := ch3)"] by (metis fun_upd_same)
  have "ch_cmds (chs2 r) = ch_cmds ch1 @ [CmdPacket (Pubrel i)]"
    unfolding chs2 by (rule server_acks.pubrec_cmds [OF st(5)])
  moreover have "\<not> has_outbound_inflight i (ch_session (server_dispatched r cid conn alive b (Pubcomp i) (\<lambda>_. ch3) r))"
    by (simp add: server_acks.pubcomp_session has_outbound_inflight_def clear_outbound_inflight_def)
  ultimately show ?thesis
    using st(1,2) poll compl chs4 by (auto simp: Let_def simp flip: chs2_def)
qed

theorem qos2_publish_completes_witness:
  "\<exists>i rc ch1 st2 ch3. send_publish_start (sample_request ExactlyOnce) (fresh_chans 0) = (AwaitPubrec i rc, ch1) \<and>
     send_poll False (AwaitPubrec i rc)
       (server_dispatched 0 ''c'' 0 True sample_broker (Pubrec i) (fresh_chans(0 := ch1)) 0) = (st2, ch3) \<and>
     fst (send_poll False st2 (server_dispatched 0 ''c'' 0 True sample_broker (Pubcomp i)
       ((server_dispatched 0 ''c'' 0 True sample_broker (Pubrec i) (fresh_chans(0 := ch1)))(0 := ch3)) 0)) =
       SendDone (Ok (Published (Completed i)))"
proof -
  obtain st ch1 where start: "send_publish_start (sample_request ExactlyOnce) (fresh_chans 0) = (st, ch1)"
    by fastforce
  have "preq_qos (sample_request ExactlyOnce) = ExactlyOnce" by (simp add: sample_request_def)
  from qos2_publish_completes [where chs = fresh_chans and r = 0, OF chans_ok_at [OF chans_ok_fresh] _ this start, of "''c''" 0 True sample_broker
      False False] start
  show ?thesis
    by (clarsimp simp: Let_def case_prod_beta simp del: send_poll.simps) (metis fst_conv prod.collapse)
qed

text \<open>
  C37: a PUBCOMP that overtakes the sending task is lost. PUBREL is sent by the reader, so the peer may
  complete the handshake before the sending task has parked its second waiter: PUBREC and PUBCOMP
  dispatched in a row leave nothing for it, the send then parks a waiter that no packet will answer,
  and a publish the peer has completed ends with an ack timeout.
\<close>

theorem qos2_early_pubcomp_is_lost:
  assumes "channel_ok (chs r)" and "ch_actor (chs r) \<noteq> Stopped" and "preq_qos req = ExactlyOnce"
    and "send_publish_start req (chs r) = (st, ch1)"
  shows "\<exists>i rc rc'. st = AwaitPubrec i rc \<and>
    (let chs2 = server_dispatched r cid conn alive b (Pubrec i) (chs(r := ch1));
         chs3 = server_dispatched r cid conn alive b (Pubcomp i) chs2;
         (st2, ch4) = send_poll t st (chs3 r)
     in st2 = AwaitPubcomp i rc' \<and> oneshots (ch_session ch4) rc' = Waiting \<and>
        fst (send_poll True st2 ch4) = SendDone (Err (Timeout TimeoutAck)))"
proof -
  obtain i rc where st: "st = AwaitPubrec i rc"
    "dm_get (pending_acks (ch_session ch1)) i = Some (SlotPubrec rc)" "channel_ok ch1"
    by (rule send_publish_start_acked [OF assms(1,2) _ assms(4)]) (use assms(3) in auto)
  define chs2 where "chs2 = server_dispatched r cid conn alive b (Pubrec i) (chs(r := ch1))"
  have chs2: "chs2 r = server_dispatched r cid conn alive b (Pubrec i) (\<lambda>_. ch1) r"
    using dispatched_acks(2) [of r cid conn alive b i "chs(r := ch1)"] unfolding chs2_def by (metis fun_upd_same)
  define s2 where "s2 = ch_session (chs2 r)"
  have s2: "s2 = wake_ack_waiter i KPubrec (ch_session ch1)"
    unfolding s2_def chs2 by (rule server_acks.pubrec_session)
  have got: "oneshots s2 rc = Delivered (AckId i)" "dm_get (pending_acks s2) i = None"
    unfolding s2 using publish_ack.wake_delivers(1,2) [OF st(2), of KPubrec] by simp_all
  define ch3 where "ch3 = server_dispatched r cid conn alive b (Pubcomp i) chs2 r"
  have "ch3 = server_dispatched r cid conn alive b (Pubcomp i) (\<lambda>_. chs2 r) r"
    unfolding ch3_def by (metis dispatched_acks(3) fun_upd_same)
  then have s3: "ch_session ch3 = clear_outbound_inflight i s2"
    using server_acks.pubcomp_session [of r cid conn alive b i "chs2 r"] publish_ack.wake_other [of s2 i KPubcomp] got(2)
    by (simp add: s2_def)
  have ok3: "session_ok (ch_session ch3)"
    unfolding s3 s2 using st(3) by (simp add: channel_ok_def session_ok_wakes session_ok_tables)
  let ?park = "on_session (park_publish_ack_waiter i KPubcomp) ch3"
  have poll: "send_poll t st ch3 = (AwaitPubcomp i (fst ?park), snd ?park)"
    using got(1) by (simp add: st(1) await_ack_def s3 clear_outbound_inflight_def case_prod_beta)
  have "oneshots (ch_session (snd ?park)) (fst ?park) = Waiting"
    using publish_ack.parked_waits [OF ok3, of i KPubcomp] by simp
  then have "fst (send_poll True (AwaitPubcomp i (fst ?park)) (snd ?park)) = SendDone (Err (Timeout TimeoutAck))"
    by (simp add: await_ack_def)
  with poll \<open>oneshots (ch_session (snd ?park)) (fst ?park) = Waiting\<close> st(1) show ?thesis
    by (auto simp: Let_def simp flip: chs2_def ch3_def)
qed

theorem qos2_early_pubcomp_is_lost_witness:
  "\<exists>i rc ch1. send_publish_start (sample_request ExactlyOnce) (fresh_chans 0) = (AwaitPubrec i rc, ch1) \<and>
    (let D = server_dispatched 0 ''c'' 0 True sample_broker;
         chs3 = D (Pubcomp i) (D (Pubrec i) (fresh_chans(0 := ch1)));
         (st2, ch4) = send_poll False (AwaitPubrec i rc) (chs3 0)
     in fst (send_poll True st2 ch4) = SendDone (Err (Timeout TimeoutAck)))"
proof -
  obtain st ch1 where start: "send_publish_start (sample_request ExactlyOnce) (fresh_chans 0) = (st, ch1)"
    by fastforce
  have "preq_qos (sample_request ExactlyOnce) = ExactlyOnce" by (simp add: sample_request_def)
  from qos2_early_pubcomp_is_lost [where chs = fresh_chans and r = 0, OF chans_ok_at [OF chans_ok_fresh] _ this start, of "''c''" 0 True sample_broker
      False] start
  show ?thesis by (auto simp: Let_def case_prod_beta)
qed

text \<open>
  C26: every send ends. Whatever is requested, whatever acknowledgements come or do not come, in whatever
  state the channel is each time the send is polled: once two of its waits have run into their
  deadline, it has returned; a publish, which has the longest path, waits at most twice.
\<close>

theorem send_always_ends:
  assumes "2 \<le> length (filter fst polls)"
  shows "\<exists>res. send_polls (fst (send_start req ch)) polls = SendDone res"
proof -
  have "send_left (send_polls (fst (send_start req ch)) polls) = 0"
    using send_polls_left [of "fst (send_start req ch)" polls] send_left_start [of req ch] assms by linarith
  then show ?thesis by (simp add: send_left_0)
qed

theorem send_always_ends_witness:
  "\<exists>res. send_polls (fst (send_start (ReqPublish (sample_request ExactlyOnce)) (fresh_chans 0)))
     [(False, fresh_chans 0), (True, fresh_chans 0), (True, fresh_chans 1)] = SendDone res"
  by (rule send_always_ends) simp

text \<open>
  Closing the channel ends every wait at once. A send that is waiting for its acknowledgement when an
  open channel is closed returns the channel-closed error on its next poll, deadline or not.
\<close>

theorem close_ends_sends:
  assumes "channel_ok ch" and "ch_open ch" and "awaited st = Some rc" and "oneshots (ch_session ch) rc = Waiting"
  shows "fst (send_poll t st (close ch)) = SendDone (Err ChannelClosed)"
proof -
  have "oneshots (ch_session (close ch)) rc = SenderDropped"
    using assms(1,2,4) oneshots_abandon [of "ch_session ch" rc] by (simp add: close_session channel_ok_def)
  then show ?thesis using assms(3) by (cases st) (simp_all add: await_ack_def)
qed

theorem close_ends_sends_witness:
  "\<exists>i rc ch1. send_publish_start (sample_request AtLeastOnce) (fresh_chans 0) = (AwaitPuback i rc, ch1) \<and>
    fst (send_poll False (AwaitPuback i rc) (close ch1)) = SendDone (Err ChannelClosed)"
proof -
  obtain st ch1 where start: "send_publish_start (sample_request AtLeastOnce) (fresh_chans 0) = (st, ch1)"
    by fastforce
  have q: "preq_qos (sample_request AtLeastOnce) = AtLeastOnce" by (simp add: sample_request_def)
  obtain i rc where st: "st = AwaitPuback i rc" "dm_get (pending_acks (ch_session ch1)) i = Some (SlotPuback rc)"
    "channel_ok ch1" "ch_open ch1 = ch_open (fresh_chans 0)"
    by (rule send_publish_start_acked [OF chans_ok_at [OF chans_ok_fresh] _ _ start]) (use q in auto)
  have "oneshots (ch_session ch1) rc = Waiting"
    using sender_fresh(2) [OF _ st(2)] st(3) by (simp add: channel_ok_def)
  moreover have "ch_open ch1" using st(4) by (simp add: fresh_chans_def channel_new_def next_connection_id_def)
  ultimately show ?thesis using close_ends_sends [OF st(3), of st rc False] start st(1) by simp
qed

end
