(* ===== verification/Mqtt_Endpoint.thy ===== *)
theory Mqtt_Endpoint
  imports Mqtt_Send Mqtt_Server_Properties
begin

text \<open>
  Endpoint code that uses the connection it was called on. The reader hands publishes to a worker
  instead of running endpoints itself (\<^verbatim>\<open>src/src/protocol/server.rs\<close>) because an endpoint that publishes
  with QoS 1 over its own connection waits for an acknowledgement that only this reader can
  deliver. The theory instantiates the endpoint parameter of the server with such an endpoint, built
  from the send path of \<^verbatim>\<open>src/src/protocol/send.rs\<close>, and shows that it meets what the server asks of
  endpoints and that it gets its acknowledgement.
\<close>

section \<open>An endpoint that publishes over its own connection\<close>

datatype reply_future = ReplyFresh "rstr mqtt_context" | ReplyWaiting "rstr mqtt_context" send_state

text \<open>
  A future that is suspended is polled again when its acknowledgement is there or its time is over; one
  that has returned is not polled again.
\<close>

definition reply_advance ::
  "rstr mqtt_context \<Rightarrow> send_state \<times> chans \<Rightarrow> rstr mqtt_context result \<times> reply_future \<times> chans" where
  "reply_advance ctx s =
     (case s of
        (SendDone res, chs) \<Rightarrow> (send_impl_done res ctx, ReplyWaiting ctx (SendDone res), chs)
      | (st, chs) \<Rightarrow> (Pending, ReplyWaiting ctx st, chs))"

fun reply_poll ::
  "publish_request \<Rightarrow> reply_future \<Rightarrow> chans \<Rightarrow> rstr mqtt_context result \<times> reply_future \<times> chans" where
  "reply_poll req (ReplyFresh ctx) chs =
     (case send_impl_start (inject_request (ReqPublish req) ctx) chs of
        (Ok (st, ctx'), chs') \<Rightarrow> reply_advance ctx' (st, chs')
      | (Err e, chs') \<Rightarrow> (Err e, ReplyFresh ctx, chs')
      | (_, chs') \<Rightarrow> (Panic, ReplyFresh ctx, chs'))"
| "reply_poll req (ReplyWaiting ctx st) chs =
     (if send_left st = 0 then (Panic, ReplyWaiting ctx st, chs)
      else
        (case ctx_channel ctx of
           None \<Rightarrow> (Panic, ReplyWaiting ctx st, chs)
         | Some r \<Rightarrow> reply_advance ctx (on_channel r (send_poll True st) chs)))"

definition reply_code :: "publish_request \<Rightarrow> (rstr, reply_future) endpoint_code" where
  "reply_code req = \<lparr>ep_nodes = segments_of, ep_start = (\<lambda>_ ctx. ReplyFresh ctx), ep_poll = reply_poll req\<rparr>"

section \<open>It is what the server asks for\<close>

lemma after_send_parts:
  "snd (after_send sent st) = snd sent" "ch_open (snd (cmd_send c ch)) = ch_open ch"
  by (cases sent; cases "fst sent"; auto simp: after_send_def cmd_send_def)+

lemma channel_ok_on_session:
  assumes "channel_ok ch"
  shows "channel_ok (snd (on_session allocate_packet_id ch))"
    and "channel_ok (snd (on_session (park_publish_ack_waiter i kind) ch))"
    and "channel_ok (snd (on_session (park_suback_waiter i) ch))"
    and "channel_ok (snd (on_session (park_unsuback_waiter i) ch))"
  using assms by (simp_all add: channel_ok_def session_ok_tables session_ok_parks)

lemma send_publish_start_keeps:
  "channel_ok ch \<Longrightarrow> channel_ok (snd (send_publish_start req ch))"
  "ch_open (snd (send_publish_start req ch)) = ch_open ch"
  by (cases "preq_qos req"; simp add: send_publish_start_def Let_def case_prod_beta after_send_parts
      channel_ok_send_publish channel_ok_on_session)
    (cases "preq_qos req"; simp add: send_publish_start_def Let_def case_prod_beta after_send_parts send_publish_def)

lemma send_poll_keeps:
  "channel_ok ch \<Longrightarrow> channel_ok (snd (send_poll t st ch))"
  "ch_open (snd (send_poll t st ch)) = ch_open ch"
proof -
  have await: "channel_ok ch \<Longrightarrow> channel_ok (snd (await_ack t i r ch))" "ch_open (snd (await_ack t i r ch)) = ch_open ch"
    for i r
    by (auto simp: await_ack_def session_ok_cancel channel_ok_with_session split: oneshot.splits)
  have "(channel_ok ch \<longrightarrow> channel_ok (snd (send_poll t st ch))) \<and> ch_open (snd (send_poll t st ch)) = ch_open ch"
  proof (cases st)
    case (AwaitPubrec i r)
    with await [of i r] show ?thesis
      by (cases "await_ack t i r ch"; cases "fst (await_ack t i r ch)")
        (auto simp: case_prod_beta channel_ok_on_session)
  qed (use await in \<open>auto simp: case_prod_beta split: outcome.splits ack_value.splits\<close>)
  then show "channel_ok ch \<Longrightarrow> channel_ok (snd (send_poll t st ch))"
    "ch_open (snd (send_poll t st ch)) = ch_open ch" by simp_all
qed

lemma reply_advance_parts:
  "snd (snd (reply_advance ctx (st, chs))) = chs"
  "fst (snd (reply_advance ctx (st, chs))) = ReplyWaiting ctx st"
  by (cases st; simp add: reply_advance_def)+

lemma reply_start:
  "send_impl_start (inject_request (ReqPublish req) ctx) chs =
    (case ctx_channel ctx of
       None \<Rightarrow> (Err (NotConnected ''no channel installed in ctx''), chs)
     | Some r \<Rightarrow> (Ok (fst (send_publish_start req (chs r)), ctx\<lparr>ctx_request := ReqPublish publish_request_default\<rparr>),
         chs(r := snd (send_publish_start req (chs r)))))"
  by (auto simp: send_impl_start_def inject_request_def on_channel_def case_prod_beta split: option.splits)

lemma reply_poll_keeps:
  "chans_ok chs \<Longrightarrow> chans_ok (snd (snd (reply_poll req k chs)))"
  "\<not> ch_open (chs x) \<Longrightarrow> \<not> ch_open (snd (snd (reply_poll req k chs)) x)"
proof -
  show "chans_ok (snd (snd (reply_poll req k chs)))" if ok: "chans_ok chs"
  proof (cases k)
    case (ReplyFresh ctx)
    then show ?thesis
      using ok send_publish_start_keeps(1) [OF chans_ok_at [OF ok]]
      by (cases "ctx_channel ctx") (simp_all add: reply_start reply_advance_parts(1) chans_ok_upd)
  next
    case (ReplyWaiting ctx st)
    then show ?thesis
      using ok send_poll_keeps(1) [OF chans_ok_at [OF ok]]
      by (cases "ctx_channel ctx") (simp_all add: on_channel_def case_prod_beta reply_advance_parts(1) chans_ok_upd)
  qed
  show "\<not> ch_open (snd (snd (reply_poll req k chs)) x)" if closed: "\<not> ch_open (chs x)"
  proof (cases k)
    case (ReplyFresh ctx)
    then show ?thesis
      using closed by (cases "ctx_channel ctx") (auto simp: reply_start reply_advance_parts(1) send_publish_start_keeps(2))
  next
    case (ReplyWaiting ctx st)
    then show ?thesis
      using closed by (cases "ctx_channel ctx") (auto simp: on_channel_def case_prod_beta reply_advance_parts(1) send_poll_keeps(2))
  qed
qed

lemma reply_code_safe: "endpoint_safe (reply_code req)"
  by (simp add: endpoint_safe_def reply_code_def reply_poll_keeps)

fun reply_left :: "reply_future \<Rightarrow> nat" where
  "reply_left (ReplyFresh ctx) = 3"
| "reply_left (ReplyWaiting ctx st) = send_left st"

lemma reply_poll_left:
  assumes "reply_poll req k chs = (Pending, k', chs')"
  shows "reply_left k' < reply_left k"
proof (cases k)
  case (ReplyFresh ctx)
  have "send_left (fst (send_publish_start req ch)) < 3" for ch using send_left_start [of "ReqPublish req" ch] by simp
  moreover obtain r ctx' where "k' = ReplyWaiting ctx' (fst (send_publish_start req (chs r)))"
    using ReplyFresh assms reply_advance_parts(2)
    by (auto simp: reply_start split: option.splits dest!: arg_cong [where f = "fst \<circ> snd"])
  ultimately show ?thesis using ReplyFresh by simp
next
  case (ReplyWaiting ctx st)
  with assms obtain r where "send_left st \<noteq> 0" "reply_advance ctx (on_channel r (send_poll True st) chs) = (Pending, k', chs')"
    by (auto split: if_splits option.splits)
  then have "k' = ReplyWaiting ctx (fst (send_poll True st (chs r)))"
    using reply_advance_parts(2) [of ctx "fst (send_poll True st (chs r))"]
    by (simp add: on_channel_def case_prod_beta) (metis fst_conv snd_conv)
  with \<open>send_left st \<noteq> 0\<close> send_left_poll [of True st "chs r"] ReplyWaiting show ?thesis by simp
qed

lemma reply_code_ends: "endpoint_ends (reply_code req) r"
proof -
  have "suspended (reply_code req) r \<subseteq> measure reply_left"
    using reply_poll_left by (auto simp: suspended_def reply_code_def)
  then show ?thesis unfolding endpoint_ends_def by (rule wf_subset [OF wf_measure])
qed

text \<open>The reader's round on a PUBACK, and what the endpoint waiting for it then sees.\<close>

lemma reader_settles_puback:
  assumes "cn_phase c = AtSelect" and "cn_reader c = \<lparr>rd_bytes = ack_bytes 0x40 i @ rest, rd_end = e\<rparr>"
    and "2 \<le> cn_max_size c"
  obtains c' chs' where "server_step code (c, b, chs) (c', b, chs')" "cn_phase c' = AtHead"
    "cn_reader c' = \<lparr>rd_bytes = rest, rd_end = e\<rparr>" "cn_worker c' = cn_worker c" "cn_channel c' = cn_channel c"
    "ch_session (chs' (cn_channel c)) =
      clear_outbound_inflight i (wake_ack_waiter i KPuback (ch_session (chs (cn_channel c))))"
proof -
  have "read_packet (cn_reader c) (cn_max_size c) = Ok (Puback i, \<lparr>rd_bytes = rest, rd_end = e\<rparr>)"
    unfolding assms(2) by (rule read_packet_encoded) (use assms(3) in \<open>simp_all add: wire_length_def\<close>)
  then have "read_packet_before (cn_reader c) (cn_max_size c) (cn_deadline c) =
      Ok (ReadPacket (Puback i) \<lparr>rd_bytes = rest, rd_end = e\<rparr>)"
    by (simp add: read_packet_before_def)
  from sv_read [OF assms(1) this, of code b chs]
  have "server_step code (c, b, chs) (c\<lparr>cn_reader := \<lparr>rd_bytes = rest, rd_end = e\<rparr>, cn_phase := AtHead\<rparr>, b,
      chs(cn_channel c := with_session (clear_outbound_inflight i) (with_session (wake_ack_waiter i KPuback)
        ((chs (cn_channel c))\<lparr>ch_loop := None\<rparr>))))"
    by (simp add: loop_round_def Let_def set_loop_def)
  then show ?thesis by (rule that) simp_all
qed

lemma reply_acknowledged:
  assumes "ctx_channel ctx = Some r" and "dm_get (pending_acks s) i = Some (SlotPuback rc)"
    and "ch_session (chs r) = clear_outbound_inflight i (wake_ack_waiter i KPuback s)"
  shows "ep_poll (reply_code req) (ReplyWaiting ctx (AwaitPuback i rc)) chs =
    (Ok (ctx\<lparr>ctx_response := Published (Acknowledged i)\<rparr>),
     ReplyWaiting ctx (SendDone (Ok (Published (Acknowledged i)))), chs)"
  using assms publish_ack.wake_delivers(1) [OF assms(2), of KPuback]
  by (simp add: reply_code_def on_channel_def await_ack_def clear_outbound_inflight_def reply_advance_def
      send_impl_done_def)

section \<open>Properties\<close>

text \<open>
  C24: an endpoint may publish over the connection it was called on. While it waits for its
  acknowledgement the reader goes on: the PUBLISH is queued, the PUBACK for its id, whenever it
  arrives, is read and dispatched by the reader's next round, and the next poll of the worker
  completes the endpoint with the acknowledgement as its response and goes on with the chain.
\<close>

theorem endpoint_publish_is_acknowledged:
  assumes "cn_phase c = AtSelect" and "cn_worker c = WRun (ReplyFresh ctx) nodes fo cur"
    and "ctx_channel ctx = Some (cn_channel c)" and "preq_qos req = AtLeastOnce"
    and "channel_ok (chs (cn_channel c))" and "ch_actor (chs (cn_channel c)) \<noteq> Stopped" and "2 \<le> cn_max_size c"
  shows "\<exists>i p k c1 chs1 ctx'. server_step (reply_code req) (c, b, chs) (c1, b, chs1) \<and>
    c1 = c\<lparr>cn_worker := WRun k nodes fo cur\<rparr> \<and>
    ch_cmds (chs1 (cn_channel c)) = ch_cmds (chs (cn_channel c)) @ [CmdPublish p] \<and>
    pub_packet_id p = Some i \<and> pub_topic p = preq_topic req \<and> pub_payload p = preq_payload req \<and>
    into_response ctx' = Published (Acknowledged i) \<and>
    (\<forall>rest e. \<exists>c2 chs2 c3 chs3.
      server_step (reply_code req) (c1\<lparr>cn_reader := \<lparr>rd_bytes = ack_bytes 0x40 i @ rest, rd_end = e\<rparr>\<rparr>, b, chs1) (c2, b, chs2) \<and>
      cn_phase c2 = AtHead \<and> cn_reader c2 = \<lparr>rd_bytes = rest, rd_end = e\<rparr> \<and>
      fst (ep_poll (reply_code req) k chs2) = Ok ctx' \<and>
      server_step (reply_code req) (c2, b, chs2) (c3, b, chs3) \<and> endpoints_left (cn_worker c3) = length nodes)"
proof -
  let ?r = "cn_channel c" and ?code = "reply_code req"
  let ?ctx = "ctx\<lparr>ctx_request := ReqPublish publish_request_default\<rparr>"
  obtain st ch1 where start: "send_publish_start req (chs ?r) = (st, ch1)" by fastforce
  obtain i rc where st: "st = AwaitPuback i rc" "dm_get (pending_acks (ch_session ch1)) i = Some (SlotPuback rc)"
    "ch_cmds ch1 = ch_cmds (chs ?r) @ [CmdPublish \<lparr>pub_topic = preq_topic req, pub_payload = preq_payload req,
      pub_dup = False, pub_qos = AtLeastOnce, pub_retain = preq_retain req, pub_packet_id = Some i\<rparr>]"
    by (rule send_publish_start_acked [OF assms(5,6) _ start]) (use assms(4) in auto)
  define chs1 where "chs1 = chs(?r := ch1)"
  define c1 where "c1 = c\<lparr>cn_worker := WRun (ReplyWaiting ?ctx st) nodes fo cur\<rparr>"
  have "ep_poll ?code (ReplyFresh ctx) chs = (Pending, ReplyWaiting ?ctx st, chs1)"
    using assms(3) start st(1) by (simp add: reply_code_def reply_start reply_advance_def chs1_def)
  then have s1: "server_step ?code (c, b, chs) (c1, b, chs1)"
    unfolding c1_def using sv_work [OF plain_order_ok, of ?code c b chs "WRun (ReplyWaiting ?ctx st) nodes fo cur" "cn_work c" chs1]
      assms(2) by (simp add: worker_round_def chain_poll_def fan_out_def)
  have later: "\<exists>c2 chs2 c3 chs3. server_step ?code (c1\<lparr>cn_reader := \<lparr>rd_bytes = ack_bytes 0x40 i @ rest, rd_end = e\<rparr>\<rparr>, b, chs1) (c2, b, chs2) \<and>
      cn_phase c2 = AtHead \<and> cn_reader c2 = \<lparr>rd_bytes = rest, rd_end = e\<rparr> \<and>
      fst (ep_poll ?code (ReplyWaiting ?ctx st) chs2) = Ok (?ctx\<lparr>ctx_response := Published (Acknowledged i)\<rparr>) \<and>
      server_step ?code (c2, b, chs2) (c3, b, chs3) \<and> endpoints_left (cn_worker c3) = length nodes" for rest e
  proof -
    obtain c2 chs2 where s2: "server_step ?code (c1\<lparr>cn_reader := \<lparr>rd_bytes = ack_bytes 0x40 i @ rest, rd_end = e\<rparr>\<rparr>, b, chs1) (c2, b, chs2)"
      "cn_phase c2 = AtHead" "cn_reader c2 = \<lparr>rd_bytes = rest, rd_end = e\<rparr>" "cn_worker c2 = cn_worker c1"
      "cn_channel c2 = ?r" "ch_session (chs2 ?r) = clear_outbound_inflight i (wake_ack_waiter i KPuback (ch_session ch1))"
      by (rule reader_settles_puback [of "c1\<lparr>cn_reader := \<lparr>rd_bytes = ack_bytes 0x40 i @ rest, rd_end = e\<rparr>\<rparr>" i rest e ?code b chs1])
        (use assms(1,7) in \<open>auto simp: c1_def chs1_def\<close>)
    have poll: "ep_poll ?code (ReplyWaiting ?ctx st) chs2 =
        (Ok (?ctx\<lparr>ctx_response := Published (Acknowledged i)\<rparr>), ReplyWaiting ?ctx (SendDone (Ok (Published (Acknowledged i)))), chs2)"
      unfolding st(1) by (rule reply_acknowledged [where chs = chs2 and r = ?r, OF _ st(2) s2(6)]) (use assms(3) in simp)
    obtain w work chs3 where w: "worker_round ?code plain_order ?r (cn_client_id c2) (cn_worker c2) (cn_work c2) b chs2 = Some (w, work, chs3)"
      "endpoints_left w = length nodes"
      using poll s2(4) by (cases nodes) (auto simp: worker_round_def chain_poll_def c1_def Let_def case_prod_beta)
    have "server_step ?code (c2, b, chs2) (c2\<lparr>cn_worker := w, cn_work := work\<rparr>, b, chs3)"
      by (rule sv_work [OF plain_order_ok]) (use w(1) s2(5) in simp)
    moreover have "endpoints_left (cn_worker (c2\<lparr>cn_worker := w, cn_work := work\<rparr>)) = length nodes" using w(2) by simp
    ultimately show ?thesis using s2(1-3) poll by (metis fst_conv)
  qed
  show ?thesis
    by (intro exI [of _ i] exI [of _ "\<lparr>pub_topic = preq_topic req, pub_payload = preq_payload req,
      pub_dup = False, pub_qos = AtLeastOnce, pub_retain = preq_retain req, pub_packet_id = Some i\<rparr>"]
        exI [of _ "ReplyWaiting ?ctx st"] exI [of _ c1] exI [of _ chs1]
        exI [of _ "?ctx\<lparr>ctx_response := Published (Acknowledged i)\<rparr>"])
      (use s1 st(3) later in \<open>simp add: c1_def chs1_def into_response_def\<close>)
qed

definition sample_packet :: publish_packet where
  "sample_packet = \<lparr>pub_topic = ''t'', pub_payload = [1], pub_dup = False, pub_qos = AtMostOnce, pub_retain = False,
     pub_packet_id = None\<rparr>"

theorem endpoint_publish_is_acknowledged_witness:
  "\<exists>c1 chs1. server_step (reply_code (sample_request AtLeastOnce))
     ((server_conn_start 0 sample_broker \<lparr>adm_client_id = ''c'', adm_connection_id = 0, adm_keep_alive = 60\<rparr>
        \<lparr>rd_bytes = [], rd_end = Stalled\<rparr>)\<lparr>cn_phase := AtSelect,
        cn_worker := WRun (ReplyFresh (install_channel 0 context_default)) [] True sample_packet\<rparr>, sample_broker, fresh_chans)
     (c1, sample_broker, chs1) \<and> (\<exists>p. ch_cmds (chs1 0) = [CmdPublish p])"
proof -
  let ?c = "(server_conn_start 0 sample_broker \<lparr>adm_client_id = ''c'', adm_connection_id = 0, adm_keep_alive = 60\<rparr>
        \<lparr>rd_bytes = [], rd_end = Stalled\<rparr>)\<lparr>cn_phase := AtSelect,
        cn_worker := WRun (ReplyFresh (install_channel 0 context_default)) [] True sample_packet\<rparr>"
  have "2 \<le> cn_max_size ?c"
    by (simp add: server_conn_start_def sample_broker_policy max_packet_size_def safety_new_def DEFAULT_MAX_PACKET_SIZE_def)
  then show ?thesis
    using endpoint_publish_is_acknowledged [of ?c "install_channel 0 context_default" "[]" True sample_packet
        "sample_request AtLeastOnce" fresh_chans sample_broker] chans_ok_at [OF chans_ok_fresh, of 0]
    by (auto simp: sample_request_def install_channel_def server_conn_start_def)
qed

end
