(* ===== verification/Spec2Isabelle.thy ===== *)
theory Spec2Isabelle
  imports Mqtt_Codec_Properties Mqtt_Error Mqtt_Forward Mqtt_Link Mqtt_System Mqtt_Endpoint
begin

text \<open>
  Verification of \<^verbatim>\<open>hotaru_mqtt\<close>, an MQTT 3.1.1 broker and client library in Rust
  (\<^verbatim>\<open>src/src\<close>).

  \<^bold>\<open>The program.\<close> A connection is an \<^verbatim>\<open>MqttChannel\<close> (\<^verbatim>\<open>channel.rs\<close>): a handle that tasks clone, a
  queue of write commands, a writer actor that alone writes to the wire, and an \<^verbatim>\<open>MqttSession\<close>
  (\<^verbatim>\<open>session.rs\<close>) with packet ids, tables of parked waiters, QoS 2 publishes and packets in flight.
  The codec (\<^verbatim>\<open>codec/\<close>) turns packets (\<^verbatim>\<open>packet.rs\<close>, \<^verbatim>\<open>request.rs\<close>) into bytes and back, within the
  limits of \<^verbatim>\<open>safety.rs\<close>. The \<^verbatim>\<open>Broker\<close> (\<^verbatim>\<open>broker.rs\<close>) keeps one session entry per client id and a
  subscription tree over validated topics (\<^verbatim>\<open>topic.rs\<close>), and fans publishes out to the channels of the
  subscribers. On top, \<^verbatim>\<open>protocol/server.rs\<close> runs an accepted connection (admission, reader loop,
  chain worker, teardown), \<^verbatim>\<open>protocol/client.rs\<close> a dialled one (handshake, select loop, dispatch),
  and \<^verbatim>\<open>protocol/send.rs\<close> the outgoing requests of both. \<^verbatim>\<open>context.rs\<close> is what endpoint code sees.

  \<^bold>\<open>The theories.\<close> One per component, in the order of the calls:
  \<^item> \<open>Mqtt_Prelude\<close>: the result type \<open>outcome\<close> (\<open>Ok\<close>, \<open>Err\<close>, \<open>Panic\<close>, \<open>Pending\<close>: a future that is
    not ready), words, UTF-8, decimal digits, the concurrent map as a locale \<open>dash_map\<close>, and three locales
    for step relations: \<open>step_invariant\<close> (what every step keeps holds along every run),
    \<open>history_invariant\<close> (the same with the labels so far) and \<open>simulation\<close> (a run of one system answered by
    a run of another with the same labels).
  \<^item> \<open>Mqtt_Packet\<close> (\<^verbatim>\<open>packet.rs\<close>, \<^verbatim>\<open>request.rs\<close>, \<^verbatim>\<open>error.rs\<close>) and \<open>Mqtt_Safety\<close> (\<^verbatim>\<open>safety.rs\<close>): the data;
    \<open>Mqtt_Error\<close> (\<^verbatim>\<open>error.rs\<close>): conversions, causes and texts of errors, and that the text identifies the error.
  \<^item> \<open>Mqtt_Wire\<close> (\<^verbatim>\<open>codec/varint.rs\<close>, \<^verbatim>\<open>codec/primitives.rs\<close>), \<open>Mqtt_Encode\<close> (\<^verbatim>\<open>codec/encode.rs\<close> and the
    writers of \<^verbatim>\<open>codec/mod.rs\<close>), \<open>Mqtt_Decode\<close> (\<^verbatim>\<open>codec/decode.rs\<close>), \<open>Mqtt_Codec\<close> (framing);
    \<open>Mqtt_Codec_Properties\<close> shows the round trips, that the two framings and the two PUBLISH writers
    agree, that decoding never panics and the size cap binds on the header.
  \<^item> \<open>Mqtt_Topic\<close> (\<^verbatim>\<open>topic.rs\<close>): parsers, validators, their agreement, their grammar.
  \<^item> \<open>Mqtt_Session\<close> (\<^verbatim>\<open>session.rs\<close>): every method on a record; oneshot channels are cells of a store, and
    the two lookups of a waker are two operations, so that a sequence of operations covers every
    interleaving. The locale \<open>ack_flow\<close> is the contract of parking and waking, interpreted for the
    three kinds of acknowledgement; no waiter is orphaned.
  \<^item> \<open>Mqtt_Channel\<close> (\<^verbatim>\<open>channel.rs\<close>): the handle's operations, and \<open>chan_step\<close>, one step per atomic
    action of the writer actor or of a task with a handle. The wire carries a prefix of the accepted
    commands in order; closing resolves every waiter.
  \<^item> \<open>Mqtt_Broker\<close> (\<^verbatim>\<open>broker.rs\<close>): each method is a function on the broker and the store of channels; the
    iteration order of the hash maps is an argument. The locale \<open>subscription_index\<close> states the tree as
    a relation between clients and filters. \<open>Mqtt_Broker_Properties\<close>: the invariant of every reachable
    state, exact fan-out, takeover, teardown. \<open>Mqtt_Broker_Spec\<close>: a publish/subscribe service as an abstract
    step relation \<open>ps_step\<close> on who is connected and who holds which filter; the broker's steps, labelled with
    requests, answers and deliveries (\<open>broker_act\<close>), are simulated by it, and what is delivered was asked for
    and sent.
  \<^item> \<open>Mqtt_Link\<close> (\<^verbatim>\<open>channel.rs\<close> to \<^verbatim>\<open>codec/mod.rs\<close>): a writer actor and the reader of its peer, with bytes that
    arrive in pieces: the peer reads what was sent, in order, and a read never fails.
  \<^item> \<open>Mqtt_Protocol\<close> (\<^verbatim>\<open>context.rs\<close>, \<^verbatim>\<open>protocol/mod.rs\<close>): contexts, the channel slot, detection,
    acknowledgement before dispatch, the close after a handler.
  \<^item> \<open>Mqtt_Server\<close> (\<^verbatim>\<open>protocol/server.rs\<close>): \<open>server_open\<close> and \<open>server_admit\<close> up to the loop, then
    \<open>server_move\<close>, the moves of one connection's reader loop and worker, and \<open>server_step\<close>, in which the peer
    and all other connections move in between. \<open>Mqtt_Server_Properties\<close>: admission, deadlines, QoS 2 forwarding, the endpoint chain as a
    trace, the release of the session on every exit, termination of the teardown.
  \<^item> \<open>Mqtt_Client\<close> (\<^verbatim>\<open>client.rs\<close>, \<^verbatim>\<open>protocol/client.rs\<close>): \<open>client_open\<close>, the dispatcher and
    \<open>client_step\<close>; \<open>Mqtt_Client_Properties\<close>: the handshake, QoS 2 dispatch, the ends of the loop, torn
    frames.
  \<^item> \<open>Mqtt_Send\<close> (\<^verbatim>\<open>protocol/send.rs\<close>): an async send is a machine with one state per await, started by
    \<open>send_start\<close> and advanced by \<open>send_poll\<close>. The locale \<open>ack_dispatcher\<close> is what it relies on from
    either role's dispatcher. Sends complete, and always end.
  \<^item> \<open>Mqtt_Endpoint\<close>: the server's endpoint parameter instantiated with an endpoint that publishes over its
    own connection, which is why the chain worker exists: the reader delivers the acknowledgement it
    waits for.
  \<^item> \<open>Mqtt_Handle\<close> (\<^verbatim>\<open>protocol/mod.rs\<close>): \<open>handle\<close> of either role from the first byte to the last, and that it
    leaves nothing behind. \<open>Mqtt_System\<close>: any number of connections on one broker (\<open>system_step\<close>), each of
    which, taken alone, is a run of \<open>server_step\<close>. \<open>Mqtt_Forward\<close>: what was decoded from a publisher can be encoded for every subscriber.
  \<^item> This theory: properties that span components, from one client's request to the other end.

  \<^bold>\<open>Conventions.\<close> Machine integers are words; lengths and \<^verbatim>\<open>usize\<close> are naturals. A string is its list of
  bytes as characters, with UTF-8 validity as a predicate. A panic, an early return and a wait are
  values of \<open>outcome\<close>. A reader is the bytes that have arrived and whether the stream has ended;
  a deadline passes when a read is still \<open>Pending\<close>. Channels are named by references into a store, so
  clones share state. All functions are total: the loops end by structural recursion or a measure
  (\<open>rrl_loop\<close>, \<open>encode_remaining_length\<close>, the parsers), and no fuel is used.

  \<^bold>\<open>Parameters.\<close> Code of \<^verbatim>\<open>hotaru_core\<close> is not part of the repository: the router is a function from topics
  to endpoint nodes, and an endpoint is a future that is started on a context and polled, each poll with
  whatever it does to the channels (\<open>endpoint_code\<close>). What is asked of endpoints is \<open>endpoint_safe\<close> (they
  keep channels well-formed and reopen none) and, for the end of the teardown, \<open>endpoint_ends\<close> (on a
  closed connection none is suspended for ever); for a server with many connections, \<open>endpoint_acts\<close> (what
  they do to channels goes through handles). The first two are met by \<open>echo_code\<close> and by \<open>reply_code\<close>, an
  endpoint that publishes over its own connection.

  \<^bold>\<open>Not modelled.\<close> The associated types and type parameters of the framework's traits (\<^verbatim>\<open>protocol/mod.rs\<close>,
  \<^verbatim>\<open>channel.rs\<close>, \<^verbatim>\<open>context.rs\<close>) and getters that return a field, which are the record selectors;
  \<^verbatim>\<open>lib.rs\<close>, which only declares modules and re-exports; the contents of \<^verbatim>\<open>params\<close> and \<^verbatim>\<open>locals\<close> of a
  context, which the crate never reads; clock time, of which only the expiry of a deadline or a tick is visible;
  tests.
\<close>

section \<open>Lemmas\<close>

lemma will_of_packet_of_will [simp]: "will_of_packet (packet_of_will w) = w"
  by (simp add: will_of_packet_def packet_of_will_def)

text \<open>A CONNACK arrives whole on any client: it has four bytes, and no cap is below two.\<close>

lemma connack_arrives:
  "encode_packet (connack present code) = Ok ks \<Longrightarrow> 2 \<le> max_size \<Longrightarrow>
   read_packet \<lparr>rd_bytes = ks @ rest, rd_end = e\<rparr> max_size =
     Ok (connack present code, \<lparr>rd_bytes = rest, rd_end = e\<rparr>)"
  by (rule read_packet_encoded) (simp_all add: connack_def wire_length_def)

lemma client_open_accepted:
  assumes "ch_reader (cl q) = Some rd" and "ch_actor (cl q) \<noteq> Stopped"
    and "read_packet rd (max_packet_size (cfg_safety cfg)) = Ok (connack present Accepted, rd')"
  shows "fst (client_open (Some cfg) q cl) = Ok rd'"
proof -
  define cl1 where "cl1 = cl(q := (cl q)\<lparr>ch_reader := None,
      ch_cmds := ch_cmds (cl q) @ [CmdPacket (Connect (build_connect cfg))]\<rparr>)"
  define cl2 where "cl2 = cl1(q := with_session (\<lambda>s. snd (bind_set \<lparr>bind_client_id = cfg_client_id cfg,
      bind_keep_alive = cfg_keep_alive_secs cfg\<rparr> s)) (cl1 q))"
  obtain sub cl3 where sub: "client_initial_subscribe cfg q cl2 = (sub, cl3)" by fastforce
  have "ch_actor (cl2 q) \<noteq> Stopped" using assms(2) by (simp add: cl2_def cl1_def)
  from client_initial_subscribe_queues(1) [OF this sub refl] have "sub = Ok ()" .
  with client_open_reply [OF assms(1,2) cl1_def] assms(3) sub show ?thesis
    by (simp add: connack_def flip: cl2_def)
qed

lemma client_receives:
  assumes "ch_actor (cl x) \<noteq> Stopped" and "pub_qos d \<noteq> ExactlyOnce"
  shows "let (res, _, jobs) = dispatch_client_inbound eps x cfg (Publish d) cl
    in res = Ok False \<and> jobs = dispatch_inbound_to_endpoints eps x d (cfg_default_inbound cfg)"
  using assms
  by (cases "pub_qos d")
    (auto simp: on_channel_def ack_inbound_publish_pre_chain_def send_packet_live split: option.splits)

lemma client_puback_completes:
  assumes "dm_get (pending_acks (ch_session ch)) i = Some (SlotPuback rc)"
  shows "fst (send_poll t (AwaitPuback i rc) (client_dispatched eps q cfg (Puback i) (cl(q := ch)) q)) =
    SendDone (Ok (Published (Acknowledged i)))"
proof -
  have "client_dispatched eps q cfg (Puback i) (cl(q := ch)) q = client_dispatched eps q cfg (Puback i) (\<lambda>_. ch) q"
    by (simp add: client_dispatched_def Let_def)
  then show ?thesis by (simp only: client_acks.puback_delivers [OF assms] fst_conv)
qed

lemma client_suback_completes:
  assumes "dm_get (pending_acks (ch_session (cl q))) i = Some (SlotSuback rc)"
  shows "fst (send_poll t (AwaitSuback i rc)
      (client_dispatched eps q cfg (Suback \<lparr>suback_packet_id = i, suback_return_codes = codes\<rparr>) cl q)) =
    SendDone (Ok (Subscribed codes))"
  using suback.wake_delivers(1) [OF assms, of codes] by (simp add: client_dispatched_def await_ack_def)

lemma subscribed_codes:
  assumes "entry_of_connection cid conn b chs \<noteq> None"
  shows "fst (broker_subscribe cid conn filters b chs) =
    map (\<lambda>tf. if filter_ok (tf_filter tf) then Granted (tf_qos tf) else Failure) filters"
  using assms subscribe_loop_codes [of cid filters]
  by (auto simp: broker_subscribe_def case_prod_beta)

section \<open>Properties\<close>

text \<open>
  C8: the handshake, from the client's configuration to both ends connected. The bytes of the CONNECT
  the client builds, at the front of a fresh server connection and however followed, make the server
  register the client under its own identifier with its own keep-alive and its own Will, provided its policy and
  its authenticator accept; and the bytes of the one CONNACK it queues, at the front of what the
  client reads, make the client's handshake succeed.
\<close>

theorem handshake_connects_both_ends:
  assumes "wf_packet (Connect (build_connect cfg))" and "encode_packet (Connect (build_connect cfg)) = Ok bs"
    and "wire_length (Connect (build_connect cfg)) \<le> max_packet_size (safety b)"
    and "cfg_client_id cfg \<noteq> []" and "2 \<le> max_packet_size (cfg_safety cfg)"
    and "ch_reader (chs r) = Some \<lparr>rd_bytes = bs @ rest, rd_end = e\<rparr>"
    and "\<forall>c e. dm_get (sessions b) c = Some e \<longrightarrow> entry_channel e \<noteq> r"
    and "ch_actor (chs r) \<noteq> Stopped" and "bind (ch_session (chs r)) = None"
    and "\<not> keep_alive_refused (safety b) (cfg_keep_alive_secs cfg)"
    and "auth_accepted (authenticate b (build_connect cfg) (ch_remote_addr (chs r)))"
    and "server_open ord r (Some b) chs = (res, bopt, chs')"
  shows "\<exists>present b'. res = Ok (\<lparr>adm_client_id = cfg_client_id cfg, adm_connection_id = ch_connection_id (chs r),
        adm_keep_alive = cfg_keep_alive_secs cfg\<rparr>, \<lparr>rd_bytes = rest, rd_end = e\<rparr>) \<and> bopt = Some b' \<and>
    dm_get (sessions b') (cfg_client_id cfg) = Some \<lparr>entry_channel = r, entry_filters = [],
      entry_will = cfg_will cfg, entry_clean_session = cfg_clean_session cfg\<rparr> \<and>
    ch_cmds (chs' r) = ch_cmds (chs r) @ [CmdPacket (connack present Accepted)] \<and>
    (\<forall>ks cl q rest' e'. encode_packet (connack present Accepted) = Ok ks \<longrightarrow>
      ch_reader (cl q) = Some \<lparr>rd_bytes = ks @ rest', rd_end = e'\<rparr> \<longrightarrow> ch_actor (cl q) \<noteq> Stopped \<longrightarrow>
      fst (client_open (Some cfg) q cl) = Ok \<lparr>rd_bytes = rest', rd_end = e'\<rparr>)"
proof -
  let ?connect = "build_connect cfg" and ?chs = "chs(r := (chs r)\<lparr>ch_reader := None\<rparr>)"
  obtain res' b' chs1 where admit: "server_admit ord r ?connect b ?chs = (res', b', chs1)" by (metis prod_cases3)
  obtain present b1 chs2 where reg: "register_session ord (cfg_client_id cfg) r (cfg_will cfg) (cfg_clean_session cfg)
      b ?chs = (present, b1, chs2)" by (metis prod_cases3)
  have eff: "effective_client_id ?connect ch = cfg_client_id cfg" for ch
    using assms(4) by (simp add: effective_client_id_def build_connect_def)
  have con: "con_keep_alive ?connect = cfg_keep_alive_secs cfg" "con_clean_session ?connect = cfg_clean_session cfg"
    "map_option will_of_packet (con_will ?connect) = cfg_will cfg"
    by (simp_all add: build_connect_def option.map_comp comp_def option.map_ident)
  have so: "server_open ord r (Some b) chs = (obind res' (\<lambda>a. Ok (a, \<lparr>rd_bytes = rest, rd_end = e\<rparr>)), Some b', chs1)"
    by (rule server_open_connect [OF assms(6) read_packet_encoded [OF assms(1,3,2)] admit])
  have ad: "res' = Ok \<lparr>adm_client_id = cfg_client_id cfg, adm_connection_id = ch_connection_id (chs r),
        adm_keep_alive = cfg_keep_alive_secs cfg\<rparr>"
    "dm_get (sessions b') (cfg_client_id cfg) = Some \<lparr>entry_channel = r, entry_filters = [],
      entry_will = cfg_will cfg, entry_clean_session = cfg_clean_session cfg\<rparr>"
    "ch_cmds (chs1 r) = ch_cmds (chs r) @ [CmdPacket (connack present Accepted)]"
    using server_admit_accepts [of b ?connect ?chs r "cfg_client_id cfg" ord present b1 chs2]
      entry_after_register [OF reg] register_other_channel [OF assms(7), of ord "cfg_client_id cfg" "cfg_will cfg"
        "cfg_clean_session cfg" ?chs] assms(7,8,10,11) admit reg
    by (simp_all add: eff con)
  have reply: "fst (client_open (Some cfg) q cl) = Ok \<lparr>rd_bytes = rest', rd_end = e'\<rparr>"
    if "encode_packet (connack present Accepted) = Ok ks"
      and "ch_reader (cl q) = Some \<lparr>rd_bytes = ks @ rest', rd_end = e'\<rparr>" and "ch_actor (cl q) \<noteq> Stopped"
    for present ks cl q rest' e'
    by (rule client_open_accepted [of cl q, OF that(2,3) connack_arrives [OF that(1) assms(5)]])
  from so ad reply assms(12) show ?thesis by auto
qed

lemma sample_client_connect:
  "build_connect sample_client = \<lparr>con_client_id = ''d'', con_clean_session = True, con_keep_alive = 60,
     con_username = None, con_password = None, con_will = None\<rparr>"
  "cfg_client_id sample_client = ''d''" "cfg_keep_alive_secs sample_client = 60"
  "cfg_safety sample_client = safety_new"
  by (simp_all add: build_connect_def sample_client_def cfg_with_initial_subscribe_def client_config_new_def)

lemma sample_client_joins: "build_connect sample_client = joining_connect"
  by (simp add: sample_client_connect joining_connect_def)

lemmas sample_client_wf = joining_connect_wf [folded sample_client_joins]
lemmas sample_client_fits = joining_connect_fits [folded sample_client_joins]

theorem handshake_connects_both_ends_witness:
  "\<exists>bs b' chs'. encode_packet (Connect (build_connect sample_client)) = Ok bs \<and>
     server_open plain_order 1 (Some sample_broker)
       (fresh_chans(1 := (fresh_chans 1)\<lparr>ch_reader := Some \<lparr>rd_bytes = bs @ [], rd_end = Stalled\<rparr>\<rparr>)) =
       (Ok (\<lparr>adm_client_id = ''d'', adm_connection_id = 1, adm_keep_alive = 60\<rparr>, \<lparr>rd_bytes = [], rd_end = Stalled\<rparr>),
        Some b', chs')"
proof -
  obtain first ty body where f: "frame_of (Connect (build_connect sample_client)) = (first, ty, body)"
    by (rule prod_cases3)
  define bs where "bs = frame first body"
  have enc: "encode_packet (Connect (build_connect sample_client)) = Ok bs"
    unfolding bs_def by (rule encode_packet_frame [OF sample_client_wf f])
  define chs where "chs = fresh_chans(1 := (fresh_chans 1)\<lparr>ch_reader := Some \<lparr>rd_bytes = bs @ [], rd_end = Stalled\<rparr>\<rparr>)"
  obtain res bopt chs' where so: "server_open plain_order 1 (Some sample_broker) chs = (res, bopt, chs')"
    by (metis prod_cases3)
  have "\<not> keep_alive_refused (safety sample_broker) (cfg_keep_alive_secs sample_client)"
    by (simp add: sample_broker_policy sample_client_connect keep_alive_refused_def max_keep_alive_def safety_new_def
        DEFAULT_MAX_KEEP_ALIVE_def)
  moreover have "auth_accepted (authenticate sample_broker (build_connect sample_client) (ch_remote_addr (chs 1)))"
    by (simp add: sample_broker_policy authenticate_def accept_all_authenticator_def auth_accept_def)
  moreover have "ch_reader (chs 1) = Some \<lparr>rd_bytes = bs @ [], rd_end = Stalled\<rparr>" "ch_actor (chs 1) \<noteq> Stopped"
    "bind (ch_session (chs 1)) = None" "ch_connection_id (chs 1) = 1"
    by (simp_all add: chs_def session_new_def)
  moreover have "cfg_client_id sample_client \<noteq> []" "2 \<le> max_packet_size (cfg_safety sample_client)"
    by (simp_all add: sample_client_connect max_packet_size_def safety_new_def DEFAULT_MAX_PACKET_SIZE_def)
  ultimately have "res = Ok (\<lparr>adm_client_id = ''d'', adm_connection_id = 1, adm_keep_alive = 60\<rparr>,
      \<lparr>rd_bytes = [], rd_end = Stalled\<rparr>) \<and> (\<exists>b'. bopt = Some b')"
    using handshake_connects_both_ends [OF sample_client_wf enc, of sample_broker chs 1 "[]" Stalled plain_order res bopt chs']
      sample_client_fits joining_connect_policy(2) so
    by (auto simp: sample_broker_policy sample_client_connect)
  with enc so show ?thesis unfolding chs_def by blast
qed

text \<open>
  C7: a QoS 1 publish, from one client's request to another client's endpoints. The PUBLISH the sending
  client queues is acknowledged by the server's reader and handed to its worker; the worker, when no
  server endpoint is registered for the topic, queues on the connection of a subscriber with one
  matching subscription exactly one PUBLISH with the requested topic and payload, at the smaller of
  the two qualities of service; the receiving client spawns one task per endpoint of that topic, or its
  fallback handler; and the PUBACK completes the sender's request.
\<close>

theorem qos1_publish_end_to_end:
  assumes "channel_ok (cl q)" and "ch_actor (cl q) \<noteq> Stopped" and "preq_qos req = AtLeastOnce"
    and "send_publish_start req (cl q) = (st, ch1)"
    and "broker_reachable (b, chs)" and "order_ok ord" and "ch_actor (chs r) \<noteq> Stopped"
    and "ep_nodes code (preq_topic req) = []"
    and "dm_get (sessions b) sub = Some ent" and "sub \<noteq> cid" and "entry_channel ent \<noteq> r"
    and "ch_actor (chs (entry_channel ent)) \<noteq> Stopped"
    and "matching_qos (subscriptions b) sub (preq_topic req) = {#k#}"
  shows "\<exists>i p d chs1 chs2. ch_cmds ch1 = ch_cmds (cl q) @ [CmdPublish p] \<and>
    dispatch_server_inbound r cid conn True (Publish p) (b, chs, []) = (Ok (), b, chs1, [p]) \<and>
    ch_cmds (chs1 r) = ch_cmds (chs r) @ [CmdPacket (Puback i)] \<and>
    worker_round code ord r cid WIdle [p] b chs1 = Some (WIdle, [], chs2) \<and>
    ch_cmds (chs2 (entry_channel ent)) = ch_cmds (chs (entry_channel ent)) @ [CmdPublish d] \<and>
    pub_topic d = preq_topic req \<and> pub_payload d = preq_payload req \<and> pub_qos d = min AtLeastOnce k \<and>
    (\<forall>eps x cfg cl'. ch_actor (cl' x) \<noteq> Stopped \<longrightarrow>
      (let (res, _, jobs) = dispatch_client_inbound eps x cfg (Publish d) cl'
       in res = Ok False \<and> jobs = dispatch_inbound_to_endpoints eps x d (cfg_default_inbound cfg))) \<and>
    (\<forall>eps cfg t. fst (send_poll t st (client_dispatched eps q cfg (Puback i) (cl(q := ch1)) q)) =
      SendDone (Ok (Published (Acknowledged i))))"
proof -
  obtain i rc where st: "st = AwaitPuback i rc" "dm_get (pending_acks (ch_session ch1)) i = Some (SlotPuback rc)"
    "ch_cmds ch1 = ch_cmds (cl q) @ [CmdPublish \<lparr>pub_topic = preq_topic req, pub_payload = preq_payload req,
      pub_dup = False, pub_qos = AtLeastOnce, pub_retain = preq_retain req, pub_packet_id = Some i\<rparr>]"
    by (rule send_publish_start_acked [OF assms(1,2) _ assms(4)]) (use assms(3) in auto)
  define p where "p = \<lparr>pub_topic = preq_topic req, pub_payload = preq_payload req, pub_dup = False,
      pub_qos = AtLeastOnce, pub_retain = preq_retain req, pub_packet_id = Some i\<rparr>"
  define chs1 where "chs1 = chs(r := (chs r)\<lparr>ch_cmds := ch_cmds (chs r) @ [CmdPacket (Puback i)]\<rparr>)"
  have disp: "dispatch_server_inbound r cid conn True (Publish p) (b, chs, []) = (Ok (), b, chs1, [p])"
    using assms(7) by (simp add: p_def on_channel_def ack_inbound_publish_pre_chain_def send_packet_live chs1_def queue_work_def)
  have work: "worker_round code ord r cid WIdle [p] b chs1 = Some (WIdle, [], publish ord cid p b chs1)"
    using assms(8) by (simp add: worker_round_def run_server_chain_then_decide_fanout_def fan_out_def p_def)
  obtain d where d: "ch_cmds (publish ord cid p b chs1 (entry_channel ent)) = ch_cmds (chs (entry_channel ent)) @ [CmdPublish d]"
    "pub_topic d = preq_topic req" "pub_payload d = preq_payload req" "pub_qos d = min AtLeastOnce k"
  proof -
    have "broker_ok b" using broker_reachable_ok [OF assms(5)] by simp
    from publish_client [OF this assms(6,9,10), of p chs1] assms(13)
    have "publish ord cid p b chs1 (entry_channel ent) = deliver_to p k (chs (entry_channel ent))"
      using assms(11) by (auto simp: p_def chs1_def)
    with deliver_to_cmds [OF assms(12), of p k] that show ?thesis by (simp add: adjusted_packet_def p_def)
  qed
  have q: "pub_qos d \<noteq> ExactlyOnce"
    unfolding d(4) by (cases k) (simp_all add: min_def less_eq_qos_def word_le_nat_alt)
  have c1: "ch_cmds (chs1 r) = ch_cmds (chs r) @ [CmdPacket (Puback i)]" by (simp add: chs1_def)
  show ?thesis
    by (intro exI [of _ i] exI [of _ p] exI [of _ d] exI [of _ chs1] exI [of _ "publish ord cid p b chs1"] conjI allI impI)
      (rule st(3) [folded p_def] disp c1 work d client_receives [OF _ q] client_puback_completes [OF st(2), folded st(1)],
       assumption?)+
qed

theorem qos1_publish_end_to_end_witness:
  "let req = \<lparr>preq_topic = ''a/b'', preq_payload = [7], preq_qos = AtLeastOnce, preq_retain = False\<rparr>;
       (st, ch1) = send_publish_start req (fresh_chans 0)
   in \<exists>i p d chs1 chs2. ch_cmds ch1 = [CmdPublish p] \<and>
     dispatch_server_inbound 1 ''p'' 1 True (Publish p) (sample_broker, fresh_chans, []) = (Ok (), sample_broker, chs1, [p]) \<and>
     worker_round (echo_code\<lparr>ep_nodes := \<lambda>_. []\<rparr>) plain_order 1 ''p'' WIdle [p] sample_broker chs1 =
       Some (WIdle, [], chs2) \<and>
     ch_cmds (chs2 0) = [CmdPublish d] \<and> pub_topic d = ''a/b'' \<and> pub_payload d = [7] \<and>
     fst (send_poll False st (client_dispatched segments_of 0 sample_client (Puback i) (fresh_chans(0 := ch1)) 0)) =
       SendDone (Ok (Published (Acknowledged i)))"
proof -
  let ?req = "\<lparr>preq_topic = ''a/b'', preq_payload = [7], preq_qos = AtLeastOnce, preq_retain = False\<rparr>"
  obtain st ch1 where start: "send_publish_start ?req (fresh_chans 0) = (st, ch1)" by fastforce
  obtain ent where ent: "dm_get (sessions sample_broker) ''c'' = Some ent" "entry_channel ent = 0"
    by (simp add: sample_broker_simps dm_get_def)
  show ?thesis
    using qos1_publish_end_to_end [where cl = fresh_chans and q = 0 and chs = fresh_chans and r = 1 and
        code = "echo_code\<lparr>ep_nodes := \<lambda>_. []\<rparr>" and conn = 1,
        OF chans_ok_at [OF chans_ok_fresh] _ _ start sample_reachable plain_order_ok _ _ ent(1), of "''p''" AtLeastOnce]
      start ent(2)
    by (simp add: sample_matching) blast
qed

text \<open>
  C15: a subscription, from a client's request to its response. The context's request becomes one
  SUBSCRIBE; the server, for the connection that holds the client id, subscribes exactly the
  requested filters and answers under the same id with one code per filter, the requested quality of
  service for a well-formed filter and failure for any other; the SUBACK wakes the sending task with
  those codes, and they are the response of the context.
\<close>

theorem subscribe_end_to_end:
  assumes "channel_ok (cl q)" and "ch_actor (cl q) \<noteq> Stopped" and "ctx_channel ctx = Some q"
    and "ctx_request ctx = ReqSubscribe filters" and "send_impl_start ctx cl = (started, cl1)"
    and "entry_of_connection cid conn b chs \<noteq> None" and "ch_actor (chs r) \<noteq> Stopped"
    and "codes = map (\<lambda>tf. if filter_ok (tf_filter tf) then Granted (tf_qos tf) else Failure) filters"
  shows "\<exists>st ctx1 i p chs1. started = Ok (st, ctx1) \<and> i \<noteq> 0 \<and>
    ch_cmds (cl1 q) = ch_cmds (cl q) @ [CmdPacket p] \<and>
    dispatch_server_inbound r cid conn alive p (b, chs, work) =
      (Ok (), snd (broker_subscribe cid conn filters b chs), chs1, work) \<and>
    ch_cmds (chs1 r) = ch_cmds (chs r) @ [CmdPacket (Suback \<lparr>suback_packet_id = i, suback_return_codes = codes\<rparr>)] \<and>
    (\<forall>eps cfg t. fst (send_poll t st (client_dispatched eps q cfg
        (Suback \<lparr>suback_packet_id = i, suback_return_codes = codes\<rparr>) cl1 q)) = SendDone (Ok (Subscribed codes))) \<and>
    obind (send_impl_done (Ok (Subscribed codes)) ctx1) (\<lambda>ctx2. Ok (into_response ctx2)) = Ok (Subscribed codes)"
proof -
  obtain st ch1 where start: "send_subscribe_start filters (cl q) = (st, ch1)" by fastforce
  then have st: "started = Ok (st, ctx\<lparr>ctx_request := ReqPublish publish_request_default\<rparr>)" "cl1 = cl(q := ch1)"
    using assms(3-5) by (auto simp: send_impl_start_def on_channel_def)
  obtain i rc where i: "st = AwaitSuback i rc" "i \<noteq> 0" "dm_get (pending_acks (ch_session ch1)) i = Some (SlotSuback rc)"
    "ch_cmds ch1 = ch_cmds (cl q) @ [CmdPacket (Subscribe \<lparr>sub_packet_id = i,
       sub_subscriptions = map (\<lambda>f. \<lparr>ts_topic = tf_filter f, ts_qos = tf_qos f\<rparr>) filters\<rparr>)]"
    by (rule send_subscribe_start_parks [OF assms(1,2) start])
  let ?p = "Subscribe \<lparr>sub_packet_id = i,
       sub_subscriptions = map (\<lambda>f. \<lparr>ts_topic = tf_filter f, ts_qos = tf_qos f\<rparr>) filters\<rparr>"
  let ?chs1 = "chs(r := (chs r)\<lparr>ch_cmds := ch_cmds (chs r) @
    [CmdPacket (Suback \<lparr>suback_packet_id = i, suback_return_codes = codes\<rparr>)]\<rparr>)"
  have "map (\<lambda>ts. \<lparr>tf_filter = ts_topic ts, tf_qos = ts_qos ts\<rparr>)
      (map (\<lambda>f. \<lparr>ts_topic = tf_filter f, ts_qos = tf_qos f\<rparr>) filters) = filters"
    by (simp add: comp_def map_idI)
  then have disp: "dispatch_server_inbound r cid conn alive ?p (b, chs, work) =
      (Ok (), snd (broker_subscribe cid conn filters b chs), ?chs1, work)"
    using assms(7,8) subscribed_codes [OF assms(6), of filters]
    by (simp add: on_channel_def send_packet_live case_prod_beta Let_def)
  have acked: "dm_get (pending_acks (ch_session (cl1 q))) i = Some (SlotSuback rc)" "ch_cmds (cl1 q) = ch_cmds ch1"
    using i(3) st(2) by simp_all
  have c1: "ch_cmds (?chs1 r) = ch_cmds (chs r) @
      [CmdPacket (Suback \<lparr>suback_packet_id = i, suback_return_codes = codes\<rparr>)]" by simp
  have resp: "obind (send_impl_done (Ok (Subscribed codes)) (ctx\<lparr>ctx_request := ReqPublish publish_request_default\<rparr>))
      (\<lambda>ctx2. Ok (into_response ctx2)) = Ok (Subscribed codes)"
    by (simp add: send_impl_done_def into_response_def)
  show ?thesis
    by (intro exI [of _ st] exI [of _ "ctx\<lparr>ctx_request := ReqPublish publish_request_default\<rparr>"] exI [of _ i]
        exI [of _ ?p] exI [of _ ?chs1] conjI allI)
      (rule st(1) i(2) i(4) [folded acked(2)] disp c1 client_suback_completes [of cl1 q, OF acked(1), folded i(1)] resp)+
qed

theorem subscribe_end_to_end_witness:
  "let ctx = (install_channel 1 (inject_request (ReqSubscribe [\<lparr>tf_filter = ''x/+'', tf_qos = ExactlyOnce\<rparr>,
         \<lparr>tf_filter = ''x+'', tf_qos = AtMostOnce\<rparr>]) context_default) :: rstr mqtt_context);
       codes = [Granted ExactlyOnce, Failure];
       (started, cl1) = send_impl_start ctx fresh_chans
   in \<exists>st ctx1 i p chs1. started = Ok (st, ctx1) \<and> ch_cmds (cl1 1) = [CmdPacket p] \<and>
     fst (snd (snd (dispatch_server_inbound 0 ''c'' 0 True p (sample_broker, fresh_chans, [])))) = chs1 \<and>
     ch_cmds (chs1 0) = [CmdPacket (Suback \<lparr>suback_packet_id = i, suback_return_codes = codes\<rparr>)]"
proof -
  let ?fs = "[\<lparr>tf_filter = ''x/+'', tf_qos = ExactlyOnce\<rparr>, \<lparr>tf_filter = ''x+'', tf_qos = AtMostOnce\<rparr>]"
  let ?ctx = "install_channel 1 (inject_request (ReqSubscribe ?fs) context_default) :: rstr mqtt_context"
  obtain started cl1 where start: "send_impl_start ?ctx fresh_chans = (started, cl1)" by fastforce
  have "filter_ok ''x/+''" "\<not> filter_ok ''x+''"
    by (simp_all add: filter_ok_def MAX_TOPIC_LEN_def segments_of_def level_ok_def has_wildcard_def)
  then have codes: "[Granted ExactlyOnce, Failure] =
      map (\<lambda>tf. if filter_ok (tf_filter tf) then Granted (tf_qos tf) else Failure) ?fs" by simp
  have ent: "entry_of_connection ''c'' 0 sample_broker fresh_chans \<noteq> None"
    by (simp add: entry_of_connection_def sample_broker_simps dm_get_def)
  have ctx: "ctx_channel ?ctx = Some 1" "ctx_request ?ctx = ReqSubscribe ?fs"
    by (simp_all add: install_channel_def inject_request_def)
  obtain st ctx1 i p chs1 where out: "started = Ok (st, ctx1)" "ch_cmds (cl1 1) = ch_cmds (fresh_chans 1) @ [CmdPacket p]"
    "dispatch_server_inbound 0 ''c'' 0 True p (sample_broker, fresh_chans, []) =
      (Ok (), snd (broker_subscribe ''c'' 0 ?fs sample_broker fresh_chans), chs1, [])"
    "ch_cmds (chs1 0) = ch_cmds (fresh_chans 0) @
      [CmdPacket (Suback \<lparr>suback_packet_id = i, suback_return_codes = [Granted ExactlyOnce, Failure]\<rparr>)]"
    using subscribe_end_to_end [where cl = fresh_chans and q = 1 and chs = fresh_chans and r = 0 and alive = True and work = "[]",
        OF chans_ok_at [OF chans_ok_fresh] _ ctx start ent _ codes] by auto
  then show ?thesis unfolding start Let_def by simp
qed

end
